theory Spec2Isabelle
  imports Complex_Main "HOL-Library.Word" "HOL-Library.Signed_Division"
begin

unbundle bit_operations_syntax

section \<open>The UART engine of \<^verbatim>\<open>cores/arduino/UART.cpp\<close>\<close>

text \<open>
  The theory embeds the transmit side of \<^verbatim>\<open>UartClass\<close>, its lifecycle operations and the
  two buffer-size queries. A port is a record of the memory-mapped registers the code touches
  and of the object's own members. The hardware is the environment: it changes the status
  flags and dispatches the data-register-empty vector between the atomic blocks of the code,
  and the two busy-wait loops take the schedule of these events as an argument.
\<close>

subsection \<open>Register bits\<close>

text \<open>
  The bit masks come from the device header that \<^verbatim>\<open>avr/io.h\<close> selects for the megaAVR
  0-series (the toolchain's header, not a file of this repository).
\<close>

type_synonym u8 = "8 word"
type_synonym u16 = "16 word"
type_synonym u32 = "32 word"

definition USART_RXCIE_bm :: u8 where "USART_RXCIE_bm = 0x80"
definition USART_DREIE_bm :: u8 where "USART_DREIE_bm = 0x20"
definition USART_RXEN_bm :: u8 where "USART_RXEN_bm = 0x80"
definition USART_TXEN_bm :: u8 where "USART_TXEN_bm = 0x40"
definition USART_RXMODE_NORMAL_gc :: u8 where "USART_RXMODE_NORMAL_gc = 0x00"
definition USART_RXMODE_CLK2X_gc :: u8 where "USART_RXMODE_CLK2X_gc = 0x02"
definition USART_TXCIF_bm :: u8 where "USART_TXCIF_bm = 0x40"
definition USART_DREIF_bm :: u8 where "USART_DREIF_bm = 0x20"

subsection \<open>The port\<close>

datatype PinMode = INPUT | OUTPUT | INPUT_PULLUP

datatype PinStatus = LOW | HIGH

text \<open>
  \<^verbatim>\<open>CTRLA\<close> to \<^verbatim>\<open>BAUD\<close> are the registers of \<^verbatim>\<open>*_hwserial_module\<close>;
  \<^verbatim>\<open>USARTROUTEA\<close> is the port multiplexer's register. \<^verbatim>\<open>pinMode\<close> and
  \<^verbatim>\<open>digitalWrite\<close> belong to the wiring layer: the record keeps the mode and the level
  last requested for the two pins of the port. The remaining fields are the members of
  \<^verbatim>\<open>UartClass\<close>, without their leading underscore. The ring-buffer indices have the type
  \<^verbatim>\<open>tx_buffer_index_t\<close>, wide enough for every value below the buffer size; they are
  natural numbers here and \<^verbatim>\<open>_tx_buffer\<close> is a list of \<^verbatim>\<open>SERIAL_TX_BUFFER_SIZE\<close> bytes.
  The code checks no index against the array bounds; \<open>tx_wf\<close> below states that the indices
  are inside the array, and every operation is shown to keep it so.
\<close>

record UartClass =
  CTRLA :: u8
  CTRLB :: u8
  CTRLC :: u8
  STATUS :: u8
  TXDATAL :: u8
  BAUD :: u16
  USARTROUTEA :: u8
  rx_pin_mode :: PinMode
  tx_pin_mode :: PinMode
  tx_pin_level :: PinStatus
  uart_mux :: u8
  written :: bool
  rx_buffer_head :: nat
  rx_buffer_tail :: nat
  tx_buffer_head :: nat
  tx_buffer_tail :: nat
  tx_buffer :: "u8 list"

text \<open>The three tests the code makes on \<^verbatim>\<open>CTRLA\<close> and \<^verbatim>\<open>STATUS\<close>.\<close>

definition dreie :: "UartClass \<Rightarrow> bool" where
  "dreie s \<longleftrightarrow> CTRLA s AND USART_DREIE_bm \<noteq> 0"

definition dreif :: "UartClass \<Rightarrow> bool" where
  "dreif s \<longleftrightarrow> STATUS s AND USART_DREIF_bm \<noteq> 0"

definition txcif :: "UartClass \<Rightarrow> bool" where
  "txcif s \<longleftrightarrow> STATUS s AND USART_TXCIF_bm \<noteq> 0"

text \<open>
  \<^verbatim>\<open>STATUS = USART_TXCIF_bm\<close>: a flag of the status register is cleared by writing a one
  to its bit location (the comment in \<^verbatim>\<open>_tx_data_empty_irq\<close>), and a zero leaves it alone.
\<close>

definition write_STATUS :: "u8 \<Rightarrow> UartClass \<Rightarrow> UartClass" where
  "write_STATUS v s = s\<lparr>STATUS := STATUS s AND NOT v\<rparr>"

subsection \<open>Interrupt handler and manual poll\<close>

text \<open>
  \<^verbatim>\<open>UartClass::_tx_data_empty_irq\<close>; \<open>N\<close> is \<^verbatim>\<open>SERIAL_TX_BUFFER_SIZE\<close>, a macro of the
  class header.
\<close>

definition tx_data_empty_irq :: "nat \<Rightarrow> UartClass \<Rightarrow> UartClass" where
  "tx_data_empty_irq N s =
     (let c = tx_buffer s ! tx_buffer_tail s;
          s1 = s\<lparr>tx_buffer_tail := (tx_buffer_tail s + 1) mod N\<rparr>;
          s2 = s1\<lparr>TXDATAL := c\<rparr>;
          s3 = write_STATUS USART_TXCIF_bm s2
      in if tx_buffer_head s3 = tx_buffer_tail s3
         then s3\<lparr>CTRLA := CTRLA s3 AND NOT USART_DREIE_bm\<rparr>
         else s3)"

text \<open>\<^verbatim>\<open>UartClass::_poll_tx_data_empty\<close>: one atomic block.\<close>

definition poll_tx_data_empty :: "nat \<Rightarrow> UartClass \<Rightarrow> UartClass" where
  "poll_tx_data_empty N s = (if dreie s \<and> dreif s then tx_data_empty_irq N s else s)"

subsection \<open>The hardware as environment\<close>

text \<open>
  Between two atomic blocks of the code the transmitter may report its data register empty
  or occupied, report a completed transmission, or dispatch the data-register-empty vector.
  The vector's routine in \<^verbatim>\<open>UART2.cpp\<close> calls \<^verbatim>\<open>_tx_data_empty_irq\<close>; the hardware
  dispatches it only while the interrupt is enabled and its flag is raised.
\<close>

datatype hw_event = DataRegEmpty | DataRegBusy | TxComplete | DreInterrupt

fun hw_step :: "nat \<Rightarrow> hw_event \<Rightarrow> UartClass \<Rightarrow> UartClass" where
  "hw_step N DataRegEmpty s = s\<lparr>STATUS := STATUS s OR USART_DREIF_bm\<rparr>"
| "hw_step N DataRegBusy s = s\<lparr>STATUS := STATUS s AND NOT USART_DREIF_bm\<rparr>"
| "hw_step N TxComplete s = s\<lparr>STATUS := STATUS s OR USART_TXCIF_bm\<rparr>"
| "hw_step N DreInterrupt s = (if dreie s \<and> dreif s then tx_data_empty_irq N s else s)"

fun hw_run :: "nat \<Rightarrow> hw_event list \<Rightarrow> UartClass \<Rightarrow> UartClass" where
  "hw_run N [] s = s"
| "hw_run N (e # es) s = hw_run N es (hw_step N e s)"

text \<open>
  One turn of a busy-wait loop: the events before the manual poll, the poll, the events
  after it. A schedule is the list of the turns the hardware grants; a loop that has not
  left when the schedule ends is still spinning, which is the value \<open>None\<close>.
\<close>

type_synonym schedule = "(hw_event list \<times> hw_event list) list"

definition spin :: "nat \<Rightarrow> hw_event list \<times> hw_event list \<Rightarrow> UartClass \<Rightarrow> UartClass" where
  "spin N t s = hw_run N (snd t) (poll_tx_data_empty N (hw_run N (fst t) s))"

subsection \<open>Write side\<close>

text \<open>
  The atomic block of \<^verbatim>\<open>UartClass::write\<close>: \<open>Some\<close> is one of its two
  \<^verbatim>\<open>return 1\<close>, \<open>None\<close> is falling out of the block with the buffer full.
\<close>

definition write_attempt :: "nat \<Rightarrow> u8 \<Rightarrow> UartClass \<Rightarrow> (nat \<times> UartClass) option" where
  "write_attempt N c s =
     (if \<not> dreie s \<and> dreif s
      then Some (1, (write_STATUS USART_TXCIF_bm (s\<lparr>TXDATAL := c\<rparr>))\<lparr>written := True\<rparr>)
      else let nexthead = (tx_buffer_head s + 1) mod N
           in if nexthead \<noteq> tx_buffer_tail s
              then Some (1, s\<lparr>tx_buffer := (tx_buffer s)[tx_buffer_head s := c],
                              tx_buffer_head := nexthead,
                              CTRLA := CTRLA s OR USART_DREIE_bm\<rparr>)
              else None)"

text \<open>
  \<^verbatim>\<open>UartClass::write\<close>: the \<^verbatim>\<open>for (;;)\<close> around the block and the poll. The
  names \<open>write\<close>, \<open>end\<close> and \<open>begin\<close> are reserved words of the theory language,
  hence the prefix of \<open>uart_write\<close>, \<open>uart_end\<close> and \<open>uart_begin\<close>.
\<close>

fun uart_write :: "nat \<Rightarrow> schedule \<Rightarrow> u8 \<Rightarrow> UartClass \<Rightarrow> (nat \<times> UartClass) option" where
  "uart_write N [] c s = write_attempt N c s"
| "uart_write N (t # env) c s =
     (case write_attempt N c s of
        Some r \<Rightarrow> Some r
      | None \<Rightarrow> uart_write N env c (spin N t s))"

text \<open>
  \<^verbatim>\<open>UartClass::flush\<close>: the early return, then the \<^verbatim>\<open>while\<close> loop. The two
  register reads of the loop condition are taken as one step; the hardware acts before and
  after the poll of each turn.
\<close>

fun flush_loop :: "nat \<Rightarrow> schedule \<Rightarrow> UartClass \<Rightarrow> UartClass option" where
  "flush_loop N [] s = (if dreie s \<or> \<not> txcif s then None else Some s)"
| "flush_loop N (t # env) s =
     (if dreie s \<or> \<not> txcif s then flush_loop N env (spin N t s) else Some s)"

definition flush :: "nat \<Rightarrow> schedule \<Rightarrow> UartClass \<Rightarrow> UartClass option" where
  "flush N env s = (if \<not> written s then Some s else flush_loop N env s)"

text \<open>
  \<^verbatim>\<open>UartClass::availableForWrite\<close>. \<^verbatim>\<open>int\<close> has 16 bits on the target; the indices are
  promoted to it (to \<^verbatim>\<open>unsigned int\<close> when the index type is \<^verbatim>\<open>uint16_t\<close>), the two
  arithmetic expressions are evaluated from left to right on 16 bits and the result is read
  as a signed \<^verbatim>\<open>int\<close>.
\<close>

definition availableForWrite :: "nat \<Rightarrow> UartClass \<Rightarrow> int" where
  "availableForWrite N s =
     (let head = tx_buffer_head s; tail = tx_buffer_tail s
      in if head \<ge> tail
         then sint ((of_nat N :: u16) - 1 - of_nat head + of_nat tail)
         else sint ((of_nat tail :: u16) - of_nat head - 1))"

subsection \<open>Read side\<close>

text \<open>
  \<^verbatim>\<open>UartClass::available\<close>; \<open>M\<close> is \<^verbatim>\<open>SERIAL_RX_BUFFER_SIZE\<close>. The sum is cast to
  \<^verbatim>\<open>unsigned int\<close>, so the remainder is the unsigned one.
\<close>

definition available :: "nat \<Rightarrow> UartClass \<Rightarrow> int" where
  "available M s =
     sint (((of_nat M :: u16) + of_nat (rx_buffer_head s) - of_nat (rx_buffer_tail s))
             mod of_nat M)"

subsection \<open>Lifecycle\<close>

text \<open>\<^verbatim>\<open>UartClass::end\<close>: the flush, then one atomic block.\<close>

definition uart_end :: "nat \<Rightarrow> schedule \<Rightarrow> UartClass \<Rightarrow> UartClass option" where
  "uart_end N env s =
     (case flush N env s of
        None \<Rightarrow> None
      | Some s1 \<Rightarrow>
          Some (s1\<lparr>CTRLB := CTRLB s1 AND NOT (USART_RXEN_bm OR USART_TXEN_bm),
                    CTRLA := CTRLA s1 AND NOT (USART_RXCIE_bm OR USART_DREIE_bm),
                    rx_buffer_head := rx_buffer_tail s1,
                    written := False\<rparr>))"

text \<open>
  The first three statements after the guard of \<^verbatim>\<open>UartClass::begin\<close>. \<open>F\<close> is the
  macro \<^verbatim>\<open>F_CPU\<close> (a \<^verbatim>\<open>long\<close> constant of the build), \<open>trim\<close> is the signature-row
  byte \<^verbatim>\<open>SIGROW.OSC16ERR5V\<close>. \<^verbatim>\<open>(8 * F_CPU) / baud\<close> is an unsigned 32-bit
  division, undefined for \<^verbatim>\<open>baud == 0\<close>; the product with the sign-extended trim is a
  32-bit one and its division by 1024 is the signed division of C, which truncates.
\<close>

definition baud_setting :: "u32 \<Rightarrow> u8 \<Rightarrow> u32 \<Rightarrow> u32 option" where
  "baud_setting F trim baud =
     (if baud = 0 then None
      else let b0 = (((8 * F) div baud) + 1) div 2;
               sigrow_val = (scast trim :: u32)
           in Some (b0 + word_of_int (sint (b0 * sigrow_val) sdiv 1024)))"

text \<open>The atomic block of \<^verbatim>\<open>UartClass::begin\<close>, statement by statement.\<close>

definition begin_setup :: "u32 \<Rightarrow> u16 \<Rightarrow> UartClass \<Rightarrow> UartClass" where
  "begin_setup bs config s =
     (let s1 = s\<lparr>USARTROUTEA := USARTROUTEA s OR uart_mux s\<rparr>;
          s2 = s1\<lparr>rx_pin_mode := INPUT_PULLUP\<rparr>;
          s3 = s2\<lparr>tx_pin_level := HIGH\<rparr>;
          s4 = s3\<lparr>CTRLB := CTRLB s3 AND NOT USART_RXMODE_CLK2X_gc\<rparr>;
          s5 = s4\<lparr>CTRLB := CTRLB s4 OR USART_RXMODE_NORMAL_gc\<rparr>;
          s6 = s5\<lparr>BAUD := ucast bs\<rparr>;
          s7 = s6\<lparr>CTRLC := ucast config\<rparr>;
          s8 = s7\<lparr>CTRLB := CTRLB s7 OR (USART_RXEN_bm OR USART_TXEN_bm)\<rparr>;
          s9 = s8\<lparr>CTRLA := CTRLA s8 OR USART_RXCIE_bm\<rparr>
      in s9\<lparr>tx_pin_mode := OUTPUT\<rparr>)"

datatype error = Unfinished | DivisionByZero

text \<open>
  \<^verbatim>\<open>UartClass::begin\<close>. \<open>Unfinished\<close>: the flush of the implied \<^verbatim>\<open>end()\<close> is still
  spinning when the schedule ends.
\<close>

definition uart_begin :: "nat \<Rightarrow> schedule \<Rightarrow> u32 \<Rightarrow> u8 \<Rightarrow> u32 \<Rightarrow> u16 \<Rightarrow> UartClass \<Rightarrow> error + UartClass" where
  "uart_begin N env F trim baud config s =
     (case (if written s
            then (case uart_end N env s of
                    None \<Rightarrow> Inl Unfinished
                  | Some s1 \<Rightarrow> Inr (s1\<lparr>written := False\<rparr>))
            else Inr s) of
        Inl e \<Rightarrow> Inl e
      | Inr s1 \<Rightarrow>
          (case baud_setting F trim baud of
             None \<Rightarrow> Inl DivisionByZero
           | Some bs \<Rightarrow> Inr (begin_setup bs config s1)))"

subsection \<open>Well-formed ports, the queue they hold, the states they reach\<close>

text \<open>The indices are inside the array, as the type of the ring buffer requires.\<close>

definition tx_wf :: "nat \<Rightarrow> UartClass \<Rightarrow> bool" where
  "tx_wf N s \<longleftrightarrow>
     0 < N \<and> length (tx_buffer s) = N \<and> tx_buffer_head s < N \<and> tx_buffer_tail s < N"

text \<open>The number of queued bytes and the queued bytes, oldest first.\<close>

definition tx_count :: "nat \<Rightarrow> UartClass \<Rightarrow> nat" where
  "tx_count N s = (N + tx_buffer_head s - tx_buffer_tail s) mod N"

definition tx_queued :: "nat \<Rightarrow> UartClass \<Rightarrow> u8 list" where
  "tx_queued N s =
     map (\<lambda>i. tx_buffer s ! ((tx_buffer_tail s + i) mod N)) [0..<tx_count N s]"

text \<open>
  The two directions of the relation between the interrupt enable and the buffer. The
  first is the one the comments of \<^verbatim>\<open>write\<close> and \<^verbatim>\<open>_poll_tx_data_empty\<close> state: the
  enable bit is set only when the buffer is non-empty.
\<close>

definition dre_inv :: "UartClass \<Rightarrow> bool" where
  "dre_inv s \<longleftrightarrow> (dreie s \<longrightarrow> tx_buffer_head s \<noteq> tx_buffer_tail s)"

definition tx_inv :: "UartClass \<Rightarrow> bool" where
  "tx_inv s \<longleftrightarrow> (dreie s \<longleftrightarrow> tx_buffer_head s \<noteq> tx_buffer_tail s)"

text \<open>
  Modelled from the spec: the constructor of \<^verbatim>\<open>UartClass\<close> is in the class's private
  header, which is not among the sources. The spec creates a port once, Disabled, with
  \<open>everWritten\<close> false and both ring buffers empty; on a port that was never enabled the
  data-register-empty interrupt is off. The other registers are left open.
\<close>

definition fresh_port :: "nat \<Rightarrow> UartClass \<Rightarrow> bool" where
  "fresh_port N s \<longleftrightarrow>
     tx_wf N s \<and> tx_buffer_head s = tx_buffer_tail s \<and>
     rx_buffer_head s = rx_buffer_tail s \<and> \<not> written s \<and> \<not> dreie s"

text \<open>
  The states a port reaches after its first \<^verbatim>\<open>begin\<close>: by the calls of the write side,
  \<^verbatim>\<open>end\<close> and a further \<^verbatim>\<open>begin\<close>, each with any schedule under which it returns,
  and by the events of the hardware, among them the dispatch of \<^verbatim>\<open>_tx_data_empty_irq\<close>.
\<close>

inductive reachable :: "nat \<Rightarrow> UartClass \<Rightarrow> bool" for N :: nat where
  begun: "fresh_port N s0 \<Longrightarrow> uart_begin N env F trim baud config s0 = Inr s \<Longrightarrow> reachable N s"
| hw: "reachable N s \<Longrightarrow> reachable N (hw_step N e s)"
| wrote: "reachable N s \<Longrightarrow> uart_write N env c s = Some (r, s') \<Longrightarrow> reachable N s'"
| polled: "reachable N s \<Longrightarrow> reachable N (poll_tx_data_empty N s)"
| flushed: "reachable N s \<Longrightarrow> flush N env s = Some s' \<Longrightarrow> reachable N s'"
| ended: "reachable N s \<Longrightarrow> uart_end N env s = Some s' \<Longrightarrow> reachable N s'"
| rebegun: "reachable N s \<Longrightarrow> uart_begin N env F trim baud config s = Inr s' \<Longrightarrow> reachable N s'"

text \<open>
  The port has been enabled: receiver and transmitter are on, as \<^verbatim>\<open>begin\<close> leaves them
  and \<^verbatim>\<open>end\<close> does not.
\<close>

definition port_enabled :: "UartClass \<Rightarrow> bool" where
  "port_enabled s \<longleftrightarrow>
     CTRLB s AND (USART_RXEN_bm OR USART_TXEN_bm) = USART_RXEN_bm OR USART_TXEN_bm"

text \<open>
  A port of four slots before its first \<^verbatim>\<open>begin\<close>, for the runs below: every register
  zero but the status register, whose data-register-empty flag is up.
\<close>

definition port4 :: UartClass where
  "port4 = \<lparr>CTRLA = 0, CTRLB = 0, CTRLC = 0, STATUS = 0x20, TXDATAL = 0, BAUD = 0,
            USARTROUTEA = 0, rx_pin_mode = INPUT, tx_pin_mode = INPUT, tx_pin_level = LOW,
            uart_mux = 0x01, written = False,
            rx_buffer_head = 0, rx_buffer_tail = 0, tx_buffer_head = 0, tx_buffer_tail = 0,
            tx_buffer = [0, 0, 0, 0]\<rparr>"

text \<open>The same port with one byte queued and the interrupt enabled.\<close>

definition port4_queued :: UartClass where
  "port4_queued = port4\<lparr>CTRLA := 0xA0, tx_buffer_head := 1, tx_buffer := [0x41, 0, 0, 0]\<rparr>"

text \<open>The port with all three usable slots taken.\<close>

definition port4_full :: UartClass where
  "port4_full = port4\<lparr>CTRLA := 0xA0, tx_buffer_head := 3, tx_buffer := [0x41, 0x42, 0x43, 0]\<rparr>"

text \<open>
  A run of the four-slot port. \<^verbatim>\<open>begin(9600, 3)\<close> at 16 MHz with a zero trim; the data
  register reported busy; \<^verbatim>\<open>write(0x41)\<close>, which takes the buffered path;
  \<^verbatim>\<open>end()\<close>; a second \<^verbatim>\<open>begin\<close>; the data register reported empty;
  \<^verbatim>\<open>write(0x42)\<close>, which takes the fast path; the transmission reported complete.
\<close>

definition port4_begun :: UartClass where
  "port4_begun = port4\<lparr>USARTROUTEA := 0x01, rx_pin_mode := INPUT_PULLUP, tx_pin_level := HIGH,
     BAUD := 6667, CTRLC := 0x03, CTRLB := 0xC0, CTRLA := 0x80, tx_pin_mode := OUTPUT\<rparr>"

definition port4_busy :: UartClass where
  "port4_busy = port4_begun\<lparr>STATUS := 0x00\<rparr>"

definition port4_behind :: UartClass where
  "port4_behind = port4_busy\<lparr>tx_buffer := [0x41, 0, 0, 0], tx_buffer_head := 1, CTRLA := 0xA0\<rparr>"

definition port4_ended :: UartClass where
  "port4_ended = port4_behind\<lparr>CTRLB := 0x00, CTRLA := 0x00\<rparr>"

definition port4_again :: UartClass where
  "port4_again = port4_ended\<lparr>CTRLB := 0xC0, CTRLA := 0x80\<rparr>"

definition port4_idle :: UartClass where
  "port4_idle = port4_again\<lparr>STATUS := 0x20\<rparr>"

definition port4_fast :: UartClass where
  "port4_fast = port4_idle\<lparr>TXDATAL := 0x42, written := True\<rparr>"

definition port4_sent :: UartClass where
  "port4_sent = port4_fast\<lparr>STATUS := 0x60\<rparr>"

text \<open>The begun port with one received byte unread and nothing written.\<close>

definition port4_rx :: UartClass where
  "port4_rx = port4_begun\<lparr>rx_buffer_head := 1\<rparr>"

text \<open>
  The begun port after one byte went out on the fast path and its transmission completed,
  with one received byte unread.
\<close>

definition port4_wrote :: UartClass where
  "port4_wrote = port4_begun\<lparr>TXDATAL := 0x42, STATUS := 0x60, written := True,
     rx_buffer_head := 1\<rparr>"

text \<open>
  The divisor in the words of the specification, for comparison with \<open>baud_setting\<close>:
  \<open>divisor = round((8 * clockFreq) / baudRate / 2)\<close> over the reals, then
  \<open>divisor += divisor * trim / 1024\<close> in integers, the quotient truncated as in C.
\<close>

definition spec_divisor :: "nat \<Rightarrow> nat \<Rightarrow> int \<Rightarrow> int" where
  "spec_divisor clockFreq baudRate trim =
     (let divisor = round ((8 * real clockFreq) / real baudRate / 2)
      in divisor + (divisor * trim) sdiv 1024)"

section \<open>Flags and registers\<close>

lemma dreie_simps [simp]:
  "dreie (s\<lparr>CTRLA := CTRLA s OR USART_DREIE_bm\<rparr>)"
  "\<not> dreie (s\<lparr>CTRLA := CTRLA s AND NOT USART_DREIE_bm\<rparr>)"
  "\<not> dreie (s\<lparr>CTRLA := CTRLA s AND NOT (USART_RXCIE_bm OR USART_DREIE_bm)\<rparr>)"
  "dreie (s\<lparr>CTRLA := CTRLA s OR USART_RXCIE_bm\<rparr>) = dreie s"
  by (simp_all add: dreie_def USART_DREIE_bm_def USART_RXCIE_bm_def and.assoc
      bit.conj_disj_distrib2)

lemma dreie_frame [simp]:
  "dreie (s\<lparr>STATUS := a\<rparr>) = dreie s"
  "dreie (s\<lparr>TXDATAL := b\<rparr>) = dreie s"
  "dreie (s\<lparr>written := w\<rparr>) = dreie s"
  "dreie (s\<lparr>tx_buffer_tail := t\<rparr>) = dreie s"
  "dreie (s\<lparr>tx_buffer_head := h\<rparr>) = dreie s"
  "dreie (s\<lparr>tx_buffer := xs\<rparr>) = dreie s"
  "dreie (s\<lparr>rx_buffer_head := r\<rparr>) = dreie s"
  "dreie (s\<lparr>CTRLB := d\<rparr>) = dreie s"
  by (simp_all add: dreie_def)

lemma status_flag_simps [simp]:
  "dreif (s\<lparr>STATUS := STATUS s OR USART_DREIF_bm\<rparr>)"
  "\<not> dreif (s\<lparr>STATUS := STATUS s AND NOT USART_DREIF_bm\<rparr>)"
  "dreif (s\<lparr>STATUS := STATUS s OR USART_TXCIF_bm\<rparr>) = dreif s"
  "dreif (s\<lparr>STATUS := STATUS s AND NOT USART_TXCIF_bm\<rparr>) = dreif s"
  "txcif (s\<lparr>STATUS := STATUS s OR USART_TXCIF_bm\<rparr>)"
  "\<not> txcif (s\<lparr>STATUS := STATUS s AND NOT USART_TXCIF_bm\<rparr>)"
  "txcif (s\<lparr>STATUS := STATUS s OR USART_DREIF_bm\<rparr>) = txcif s"
  "txcif (s\<lparr>STATUS := STATUS s AND NOT USART_DREIF_bm\<rparr>) = txcif s"
  by (simp_all add: dreif_def txcif_def USART_DREIF_bm_def USART_TXCIF_bm_def and.assoc
      bit.conj_disj_distrib2)

lemma write_STATUS_simps [simp]:
  "\<not> txcif (write_STATUS USART_TXCIF_bm s)"
  "dreif (write_STATUS USART_TXCIF_bm s) = dreif s"
  "dreie (write_STATUS v s) = dreie s"
  "CTRLA (write_STATUS v s) = CTRLA s"
  "TXDATAL (write_STATUS v s) = TXDATAL s"
  "written (write_STATUS v s) = written s"
  "tx_buffer (write_STATUS v s) = tx_buffer s"
  "tx_buffer_head (write_STATUS v s) = tx_buffer_head s"
  "tx_buffer_tail (write_STATUS v s) = tx_buffer_tail s"
  "rx_buffer_head (write_STATUS v s) = rx_buffer_head s"
  "rx_buffer_tail (write_STATUS v s) = rx_buffer_tail s"
  by (simp_all add: write_STATUS_def)

section \<open>The interrupt handler\<close>

lemma irq_eq:
  "tx_data_empty_irq N s =
     s\<lparr>tx_buffer_tail := (tx_buffer_tail s + 1) mod N,
       TXDATAL := tx_buffer s ! tx_buffer_tail s,
       STATUS := STATUS s AND NOT USART_TXCIF_bm,
       CTRLA := (if tx_buffer_head s = (tx_buffer_tail s + 1) mod N
                 then CTRLA s AND NOT USART_DREIE_bm else CTRLA s)\<rparr>"
  by (simp add: tx_data_empty_irq_def write_STATUS_def Let_def)

lemma irq_fields [simp]:
  "tx_buffer_tail (tx_data_empty_irq N s) = (tx_buffer_tail s + 1) mod N"
  "tx_buffer_head (tx_data_empty_irq N s) = tx_buffer_head s"
  "tx_buffer (tx_data_empty_irq N s) = tx_buffer s"
  "TXDATAL (tx_data_empty_irq N s) = tx_buffer s ! tx_buffer_tail s"
  "STATUS (tx_data_empty_irq N s) = STATUS s AND NOT USART_TXCIF_bm"
  "written (tx_data_empty_irq N s) = written s"
  "rx_buffer_head (tx_data_empty_irq N s) = rx_buffer_head s"
  "rx_buffer_tail (tx_data_empty_irq N s) = rx_buffer_tail s"
  by (simp_all add: irq_eq)

lemma irq_txcif [simp]: "\<not> txcif (tx_data_empty_irq N s)"
  by (simp add: txcif_def USART_TXCIF_bm_def and.assoc)

lemma irq_dreif [simp]: "dreif (tx_data_empty_irq N s) = dreif s"
  by (simp add: dreif_def USART_TXCIF_bm_def USART_DREIF_bm_def and.assoc)

lemma irq_dreie [simp]:
  "dreie (tx_data_empty_irq N s) \<longleftrightarrow>
     dreie s \<and> tx_buffer_head s \<noteq> (tx_buffer_tail s + 1) mod N"
  by (simp add: irq_eq dreie_def USART_DREIE_bm_def and.assoc)

lemma irq_wf: "tx_wf N s \<Longrightarrow> tx_wf N (tx_data_empty_irq N s)"
  by (simp add: tx_wf_def)

lemma irq_dre_inv: "dre_inv (tx_data_empty_irq N s)"
  by (simp add: dre_inv_def)

text \<open>The count of queued bytes without the remainder.\<close>

lemma tx_count_alt:
  assumes "tx_wf N s"
  shows "tx_count N s =
     (if tx_buffer_tail s \<le> tx_buffer_head s
      then tx_buffer_head s - tx_buffer_tail s
      else N + tx_buffer_head s - tx_buffer_tail s)"
proof (cases "tx_buffer_tail s \<le> tx_buffer_head s")
  case True
  have "(N + (tx_buffer_head s - tx_buffer_tail s)) mod N =
      (tx_buffer_head s - tx_buffer_tail s) mod N"
    by (rule mod_add_self1)
  moreover have "N + (tx_buffer_head s - tx_buffer_tail s) = N + tx_buffer_head s - tx_buffer_tail s"
    using True by (rule Nat.add_diff_assoc)
  moreover have "tx_buffer_head s - tx_buffer_tail s < N"
    using assms by (simp add: tx_wf_def less_imp_diff_less)
  ultimately show ?thesis using True by (simp add: tx_count_def)
next
  case False
  with assms have "N + tx_buffer_head s - tx_buffer_tail s < N"
    unfolding tx_wf_def by arith
  with False show ?thesis by (simp add: tx_count_def)
qed

lemma count_pop:
  assumes "tx_wf N s" "tx_buffer_head s \<noteq> tx_buffer_tail s"
  shows "tx_count N s = Suc (tx_count N (tx_data_empty_irq N s))"
proof -
  let ?h = "tx_buffer_head s" and ?t = "tx_buffer_tail s"
  let ?s' = "tx_data_empty_irq N s"
  from assms have b: "0 < N" "?h < N" "?t < N" by (simp_all add: tx_wf_def)
  have wf': "tx_wf N ?s'" using assms(1) by (rule irq_wf)
  show ?thesis
  proof (cases "Suc ?t = N")
    case True
    then have "tx_buffer_tail ?s' = 0" by simp
    with True assms(2) b show ?thesis
      by (simp add: tx_count_alt [OF wf'] tx_count_alt [OF assms(1)])
  next
    case False
    with b have "tx_buffer_tail ?s' = Suc ?t" by simp
    with assms(2) b show ?thesis
      by (auto simp add: tx_count_alt [OF wf'] tx_count_alt [OF assms(1)])
  qed
qed

lemma queued_pop:
  assumes "tx_wf N s" "tx_buffer_head s \<noteq> tx_buffer_tail s"
  shows "tx_queued N s = tx_buffer s ! tx_buffer_tail s # tx_queued N (tx_data_empty_irq N s)"
proof -
  let ?t = "tx_buffer_tail s"
  let ?n = "tx_count N (tx_data_empty_irq N s)"
  from assms have b: "0 < N" "?t < N" by (simp_all add: tx_wf_def)
  have c: "tx_count N s = Suc ?n" by (rule count_pop [OF assms])
  have "[0..<Suc ?n] = 0 # map Suc [0..<?n]"
    by (simp add: upt_conv_Cons map_Suc_upt del: upt_Suc)
  then have "tx_queued N s =
      tx_buffer s ! (?t mod N) # map (\<lambda>i. tx_buffer s ! ((?t + Suc i) mod N)) [0..<?n]"
    by (simp add: tx_queued_def c comp_def del: upt_Suc)
  moreover have "((?t + 1) mod N + i) mod N = (?t + Suc i) mod N" for i
    by (simp add: mod_add_left_eq)
  ultimately show ?thesis using b by (simp add: tx_queued_def)
qed

text \<open>
  C4. Every call of the transmit-data-empty handler advances the tail by one modulo the
  buffer size, writes the byte it found at the old tail to the data register, clears the
  transmit-complete flag, and clears the data-register-empty interrupt enable exactly when
  head and tail are equal after the pop; nothing else changes. On a well-formed, non-empty
  buffer the byte is the oldest queued one and the queue loses exactly that byte.
\<close>

theorem tx_data_empty_irq_pops_one:
  "tx_data_empty_irq N s =
     s\<lparr>tx_buffer_tail := (tx_buffer_tail s + 1) mod N,
       TXDATAL := tx_buffer s ! tx_buffer_tail s,
       STATUS := STATUS s AND NOT USART_TXCIF_bm,
       CTRLA := (if tx_buffer_head s = (tx_buffer_tail s + 1) mod N
                 then CTRLA s AND NOT USART_DREIE_bm else CTRLA s)\<rparr>
   \<and> \<not> txcif (tx_data_empty_irq N s)
   \<and> (dreie (tx_data_empty_irq N s) \<longleftrightarrow>
        dreie s \<and>
        tx_buffer_head (tx_data_empty_irq N s) \<noteq> tx_buffer_tail (tx_data_empty_irq N s))
   \<and> (tx_wf N s \<and> tx_buffer_head s \<noteq> tx_buffer_tail s \<longrightarrow>
        tx_queued N s = TXDATAL (tx_data_empty_irq N s) # tx_queued N (tx_data_empty_irq N s)
        \<and> tx_count N s = Suc (tx_count N (tx_data_empty_irq N s))
        \<and> tx_wf N (tx_data_empty_irq N s))"
proof -
  have "tx_wf N s \<and> tx_buffer_head s \<noteq> tx_buffer_tail s \<longrightarrow>
        tx_queued N s = TXDATAL (tx_data_empty_irq N s) # tx_queued N (tx_data_empty_irq N s)
        \<and> tx_count N s = Suc (tx_count N (tx_data_empty_irq N s))
        \<and> tx_wf N (tx_data_empty_irq N s)"
    using queued_pop [of N s] count_pop [of N s] irq_wf [of N s] by simp
  moreover have "\<not> txcif (tx_data_empty_irq N s)" by simp
  moreover have "dreie (tx_data_empty_irq N s) \<longleftrightarrow>
        dreie s \<and>
        tx_buffer_head (tx_data_empty_irq N s) \<noteq> tx_buffer_tail (tx_data_empty_irq N s)"
    by simp
  ultimately show ?thesis using irq_eq [of N s] by blast
qed

theorem tx_data_empty_irq_pops_one_witness:
  "tx_wf 4 port4_queued \<and> tx_buffer_head port4_queued \<noteq> tx_buffer_tail port4_queued
   \<and> tx_queued 4 port4_queued = [0x41]
   \<and> TXDATAL (tx_data_empty_irq 4 port4_queued) = 0x41
   \<and> tx_buffer_tail (tx_data_empty_irq 4 port4_queued) = 1
   \<and> tx_queued 4 (tx_data_empty_irq 4 port4_queued) = []
   \<and> \<not> dreie (tx_data_empty_irq 4 port4_queued)"
proof -
  have wf: "tx_wf 4 port4_queued"
    by (simp add: tx_wf_def port4_queued_def port4_def)
  have ne: "tx_buffer_head port4_queued \<noteq> tx_buffer_tail port4_queued"
    by (simp add: port4_queued_def port4_def)
  have d: "TXDATAL (tx_data_empty_irq 4 port4_queued) = 0x41"
    by (simp add: port4_queued_def port4_def)
  note T = tx_data_empty_irq_pops_one [of 4 port4_queued]
  from T wf ne
  have q': "tx_queued 4 port4_queued =
        TXDATAL (tx_data_empty_irq 4 port4_queued) # tx_queued 4 (tx_data_empty_irq 4 port4_queued)"
    and c: "tx_count 4 port4_queued = Suc (tx_count 4 (tx_data_empty_irq 4 port4_queued))"
    by blast+
  from T
  have e: "dreie (tx_data_empty_irq 4 port4_queued) \<longleftrightarrow>
        dreie port4_queued \<and>
        tx_buffer_head (tx_data_empty_irq 4 port4_queued)
          \<noteq> tx_buffer_tail (tx_data_empty_irq 4 port4_queued)"
    by blast
  from q' d
  have q: "tx_queued 4 port4_queued = 0x41 # tx_queued 4 (tx_data_empty_irq 4 port4_queued)"
    by simp
  have c1: "tx_count 4 port4_queued = 1"
    by (simp add: tx_count_def port4_queued_def port4_def)
  with c have "tx_count 4 (tx_data_empty_irq 4 port4_queued) = 0" by simp
  then have q0: "tx_queued 4 (tx_data_empty_irq 4 port4_queued) = []"
    by (simp add: tx_queued_def)
  have t: "tx_buffer_tail (tx_data_empty_irq 4 port4_queued) = 1"
    by (simp add: port4_queued_def port4_def)
  have h: "tx_buffer_head (tx_data_empty_irq 4 port4_queued) = 1"
    by (simp add: port4_queued_def port4_def)
  from e t h have "\<not> dreie (tx_data_empty_irq 4 port4_queued)" by simp
  with wf ne d q q0 t show ?thesis by simp
qed

section \<open>The manual poll\<close>

lemma poll_wf: "tx_wf N s \<Longrightarrow> tx_wf N (poll_tx_data_empty N s)"
  by (simp add: poll_tx_data_empty_def irq_wf)

lemma poll_dre_inv: "dre_inv s \<Longrightarrow> dre_inv (poll_tx_data_empty N s)"
  by (simp add: poll_tx_data_empty_def irq_dre_inv)

text \<open>
  C5. The handler reads the slot at the tail and advances the tail without looking at the
  head (the last two equations, which hold on every port). Provided the interrupt enable is set only when the buffer is non-empty, the manual
  poll calls the handler only on a non-empty buffer: the byte it sends is the oldest queued
  byte, the queue shrinks by that one byte (so the tail does not pass the head), and the
  poll hands on a well-formed port on which the proviso holds again. When the enable bit
  or the data-register-empty flag is down, the poll changes nothing.
\<close>

theorem poll_pops_only_queued:
  assumes "tx_wf N s" and "dre_inv s"
  shows "(if dreie s \<and> dreif s
          then poll_tx_data_empty N s = tx_data_empty_irq N s
               \<and> tx_buffer_head s \<noteq> tx_buffer_tail s
               \<and> tx_queued N s \<noteq> []
               \<and> TXDATAL (poll_tx_data_empty N s) = hd (tx_queued N s)
               \<and> tx_queued N (poll_tx_data_empty N s) = tl (tx_queued N s)
               \<and> Suc (tx_count N (poll_tx_data_empty N s)) = tx_count N s
          else poll_tx_data_empty N s = s)
         \<and> tx_wf N (poll_tx_data_empty N s) \<and> dre_inv (poll_tx_data_empty N s)
         \<and> tx_buffer_tail (tx_data_empty_irq N s) = (tx_buffer_tail s + 1) mod N
         \<and> TXDATAL (tx_data_empty_irq N s) = tx_buffer s ! tx_buffer_tail s"
proof (cases "dreie s \<and> dreif s")
  case True
  with assms(2) have ne: "tx_buffer_head s \<noteq> tx_buffer_tail s"
    by (simp add: dre_inv_def)
  have p: "poll_tx_data_empty N s = tx_data_empty_irq N s"
    using True by (simp add: poll_tx_data_empty_def)
  have "tx_queued N s = tx_buffer s ! tx_buffer_tail s # tx_queued N (poll_tx_data_empty N s)"
    using queued_pop [OF assms(1) ne] p by simp
  moreover have "tx_count N s = Suc (tx_count N (poll_tx_data_empty N s))"
    using count_pop [OF assms(1) ne] p by simp
  moreover have "TXDATAL (poll_tx_data_empty N s) = tx_buffer s ! tx_buffer_tail s"
    using p by simp
  ultimately show ?thesis
    using True p ne poll_wf [OF assms(1), of ] poll_dre_inv [OF assms(2), of N] by simp
next
  case False
  then have "poll_tx_data_empty N s = s"
    by (auto simp add: poll_tx_data_empty_def)
  with False assms show ?thesis by auto
qed

theorem poll_pops_only_queued_witness:
  "tx_wf 4 port4_queued \<and> dre_inv port4_queued \<and> dreie port4_queued \<and> dreif port4_queued
   \<and> tx_queued 4 port4_queued = [0x41]
   \<and> TXDATAL (poll_tx_data_empty 4 port4_queued) = 0x41
   \<and> tx_queued 4 (poll_tx_data_empty 4 port4_queued) = []
   \<and> tx_count 4 (poll_tx_data_empty 4 port4_queued) = 0"
proof -
  have wf: "tx_wf 4 port4_queued"
    by (simp add: tx_wf_def port4_queued_def port4_def)
  have inv: "dre_inv port4_queued"
    by (simp add: dre_inv_def port4_queued_def port4_def)
  have ie: "dreie port4_queued"
    by (simp add: dreie_def USART_DREIE_bm_def port4_queued_def port4_def)
  have fl: "dreif port4_queued"
    by (simp add: dreif_def USART_DREIF_bm_def port4_queued_def port4_def)
  have q: "tx_queued 4 port4_queued = [0x41]"
    by (simp add: tx_queued_def tx_count_def port4_queued_def port4_def)
  from ie fl have both: "dreie port4_queued \<and> dreif port4_queued" by simp
  from poll_pops_only_queued [OF wf inv]
  have "TXDATAL (poll_tx_data_empty 4 port4_queued) = hd (tx_queued 4 port4_queued)"
    and "tx_queued 4 (poll_tx_data_empty 4 port4_queued) = tl (tx_queued 4 port4_queued)"
    and "Suc (tx_count 4 (poll_tx_data_empty 4 port4_queued)) = tx_count 4 port4_queued"
    unfolding if_P [OF both] by blast+
  moreover have "tx_count 4 port4_queued = 1"
    by (simp add: tx_count_def port4_queued_def port4_def)
  ultimately show ?thesis using wf inv ie fl q by simp
qed

section \<open>The ring buffer as a queue\<close>

lemma ring_count:
  fixes h t N :: nat
  assumes "h < N" "t < N"
  shows "(N + h - t) mod N = (if t \<le> h then h - t else N + h - t)"
proof (cases "t \<le> h")
  case True
  have "(N + (h - t)) mod N = (h - t) mod N"
    by (rule mod_add_self1)
  moreover have "N + (h - t) = N + h - t"
    using True by (rule Nat.add_diff_assoc)
  moreover have "h - t < N"
    using assms(1) by (rule less_imp_diff_less)
  ultimately show ?thesis using True by simp
next
  case False
  with assms have "N + h - t < N" by arith
  with False show ?thesis by simp
qed

lemma queued_slot:
  assumes "tx_wf N s" "i < tx_count N s"
  shows "(tx_buffer_tail s + i) mod N \<noteq> tx_buffer_head s"
proof (cases "tx_buffer_tail s \<le> tx_buffer_head s")
  case True
  with assms have "tx_buffer_tail s + i < tx_buffer_head s"
    by (simp add: tx_count_alt)
  moreover from assms(1) have "tx_buffer_head s < N" by (simp add: tx_wf_def)
  ultimately show ?thesis by simp
next
  case False
  from assms(1) have b: "tx_buffer_head s < N" "tx_buffer_tail s < N"
    by (simp_all add: tx_wf_def)
  from False assms have i: "i < N + tx_buffer_head s - tx_buffer_tail s"
    by (simp add: tx_count_alt)
  show ?thesis
  proof (cases "tx_buffer_tail s + i < N")
    case True
    with False show ?thesis by simp
  next
    case False
    then have "(tx_buffer_tail s + i) mod N = (tx_buffer_tail s + i - N) mod N"
      by (simp add: le_mod_geq)
    moreover have "tx_buffer_tail s + i - N < tx_buffer_head s"
      using i False b by arith
    ultimately show ?thesis using b by simp
  qed
qed

lemma head_slot:
  assumes "tx_wf N s"
  shows "(tx_buffer_tail s + tx_count N s) mod N = tx_buffer_head s"
proof (cases "tx_buffer_tail s \<le> tx_buffer_head s")
  case True
  with assms show ?thesis by (simp add: tx_count_alt tx_wf_def)
next
  case False
  with assms have "tx_buffer_tail s + tx_count N s = N + tx_buffer_head s"
    by (simp add: tx_count_alt tx_wf_def)
  with assms show ?thesis by (simp add: tx_wf_def)
qed

lemma count_push:
  assumes "tx_wf N s" "(tx_buffer_head s + 1) mod N \<noteq> tx_buffer_tail s"
    and "tx_buffer_head s' = (tx_buffer_head s + 1) mod N"
    and "tx_buffer_tail s' = tx_buffer_tail s"
  shows "tx_count N s' = Suc (tx_count N s)"
proof -
  let ?h = "tx_buffer_head s" and ?t = "tx_buffer_tail s"
  from assms(1) have b: "0 < N" "?h < N" "?t < N" by (simp_all add: tx_wf_def)
  then have h': "(?h + 1) mod N < N" by simp
  have c': "tx_count N s' =
      (if ?t \<le> (?h + 1) mod N then (?h + 1) mod N - ?t else N + (?h + 1) mod N - ?t)"
    unfolding tx_count_def assms(3,4) by (rule ring_count [OF h' b(3)])
  show ?thesis
  proof (cases "Suc ?h = N")
    case True
    then have "(?h + 1) mod N = 0" by simp
    with True assms(2) b show ?thesis
      by (simp add: c' tx_count_alt [OF assms(1)])
  next
    case False
    with b have "(?h + 1) mod N = Suc ?h" by simp
    with assms(2) b show ?thesis
      by (auto simp add: c' tx_count_alt [OF assms(1)])
  qed
qed

lemma queued_push:
  assumes "tx_wf N s" "(tx_buffer_head s + 1) mod N \<noteq> tx_buffer_tail s"
    and "tx_buffer_head s' = (tx_buffer_head s + 1) mod N"
    and "tx_buffer_tail s' = tx_buffer_tail s"
    and "tx_buffer s' = (tx_buffer s)[tx_buffer_head s := c]"
  shows "tx_queued N s' = tx_queued N s @ [c]"
proof -
  let ?n = "tx_count N s"
  from assms(1) have len: "tx_buffer_head s < length (tx_buffer s)"
    by (simp add: tx_wf_def)
  have c: "tx_count N s' = Suc ?n" by (rule count_push [OF assms(1-4)])
  have old: "map (\<lambda>i. tx_buffer s' ! ((tx_buffer_tail s + i) mod N)) [0..<?n] =
      map (\<lambda>i. tx_buffer s ! ((tx_buffer_tail s + i) mod N)) [0..<?n]"
  proof -
    have "tx_buffer_head s \<noteq> (tx_buffer_tail s + i) mod N" if "i < ?n" for i
      using queued_slot [OF assms(1) that] by (rule not_sym)
    then show ?thesis by (simp add: assms(5))
  qed
  have new: "tx_buffer s' ! ((tx_buffer_tail s + ?n) mod N) = c"
    using len by (simp add: head_slot [OF assms(1)] assms(5))
  show ?thesis
    by (simp add: tx_queued_def c assms(4) old new)
qed


section \<open>The hardware\<close>

lemma hw_step_frame [simp]:
  "tx_buffer_head (hw_step N e s) = tx_buffer_head s"
  "tx_buffer (hw_step N e s) = tx_buffer s"
  "written (hw_step N e s) = written s"
  "rx_buffer_head (hw_step N e s) = rx_buffer_head s"
  "rx_buffer_tail (hw_step N e s) = rx_buffer_tail s"
  by (cases e; simp)+

lemma hw_step_wf: "tx_wf N s \<Longrightarrow> tx_wf N (hw_step N e s)"
  by (cases e) (simp_all add: tx_wf_def)

lemma hw_step_dre_inv: "dre_inv s \<Longrightarrow> dre_inv (hw_step N e s)"
  by (cases e) (simp_all add: dre_inv_def)

lemma hw_run_wf: "tx_wf N s \<Longrightarrow> tx_wf N (hw_run N es s)"
  by (induction es arbitrary: s) (simp_all add: hw_step_wf)

lemma hw_run_dre_inv: "dre_inv s \<Longrightarrow> dre_inv (hw_run N es s)"
  by (induction es arbitrary: s) (simp_all add: hw_step_dre_inv)

lemma hw_run_written [simp]: "written (hw_run N es s) = written s"
  by (induction es arbitrary: s) simp_all

lemma spin_wf: "tx_wf N s \<Longrightarrow> tx_wf N (spin N t s)"
  by (simp add: spin_def hw_run_wf poll_wf)

lemma spin_dre_inv: "dre_inv s \<Longrightarrow> dre_inv (spin N t s)"
  by (simp add: spin_def hw_run_dre_inv poll_dre_inv)

lemma spin_written [simp]: "written (spin N t s) = written s"
  by (simp add: spin_def poll_tx_data_empty_def)

section \<open>Writing a byte\<close>

lemma write_attempt_fast:
  "\<not> dreie s \<and> dreif s \<Longrightarrow>
   write_attempt N c s =
     Some (1, s\<lparr>TXDATAL := c, STATUS := STATUS s AND NOT USART_TXCIF_bm, written := True\<rparr>)"
  by (simp add: write_attempt_def write_STATUS_def)

lemma write_attempt_buffered:
  "\<not> (\<not> dreie s \<and> dreif s) \<Longrightarrow> (tx_buffer_head s + 1) mod N \<noteq> tx_buffer_tail s \<Longrightarrow>
   write_attempt N c s =
     Some (1, s\<lparr>tx_buffer := (tx_buffer s)[tx_buffer_head s := c],
                tx_buffer_head := (tx_buffer_head s + 1) mod N,
                CTRLA := CTRLA s OR USART_DREIE_bm\<rparr>)"
  by (auto simp add: write_attempt_def Let_def)

lemma write_attempt_full:
  "\<not> (\<not> dreie s \<and> dreif s) \<Longrightarrow> (tx_buffer_head s + 1) mod N = tx_buffer_tail s \<Longrightarrow>
   write_attempt N c s = None"
  by (auto simp add: write_attempt_def Let_def)

lemma write_attempt_one: "write_attempt N c s = Some (r, s') \<Longrightarrow> r = 1"
  by (auto simp add: write_attempt_def Let_def split: if_splits)

lemma uart_write_one: "uart_write N env c s = Some (r, s') \<Longrightarrow> r = 1"
proof (induction env arbitrary: s)
  case Nil
  then have "write_attempt N c s = Some (r, s')" by simp
  then show ?case by (rule write_attempt_one)
next
  case (Cons t env)
  show ?case
  proof (cases "write_attempt N c s")
    case None
    with Cons.prems have "uart_write N env c (spin N t s) = Some (r, s')" by simp
    then show ?thesis by (rule Cons.IH)
  next
    case (Some a)
    with Cons.prems have "write_attempt N c s = Some (r, s')" by simp
    then show ?thesis by (rule write_attempt_one)
  qed
qed

lemma uart_write_now:
  "write_attempt N c s = Some a \<Longrightarrow> uart_write N env c s = Some a"
  by (cases env) simp_all

text \<open>
  C1. Whenever \<^verbatim>\<open>write(c)\<close> returns, it returns 1. With the interrupt enable clear and the
  data register empty it returns at once, having written \<open>c\<close> to the data register,
  cleared the transmit-complete flag and set \<open>written\<close>. Otherwise, with a free slot, it
  returns at once, having stored \<open>c\<close> at the head, advanced the head and set the interrupt
  enable, and nothing else; on a well-formed port \<open>c\<close> is then the newest byte of the queue.
  Otherwise the buffer is full: the attempt changes nothing and yields no result, and the
  call goes on with the next attempt after the manual poll (and whatever the hardware did
  before and after it); it has not returned if the hardware grants no further turn.
\<close>

theorem uart_write_returns_one:
  "(uart_write N env c s = Some (r, s') \<longrightarrow> r = 1)
   \<and> (\<not> dreie s \<and> dreif s \<longrightarrow>
        uart_write N env c s =
          Some (1, s\<lparr>TXDATAL := c, STATUS := STATUS s AND NOT USART_TXCIF_bm,
                     written := True\<rparr>))
   \<and> (\<not> (\<not> dreie s \<and> dreif s) \<and> (tx_buffer_head s + 1) mod N \<noteq> tx_buffer_tail s \<longrightarrow>
        uart_write N env c s =
          Some (1, s\<lparr>tx_buffer := (tx_buffer s)[tx_buffer_head s := c],
                     tx_buffer_head := (tx_buffer_head s + 1) mod N,
                     CTRLA := CTRLA s OR USART_DREIE_bm\<rparr>)
        \<and> dreie (s\<lparr>tx_buffer := (tx_buffer s)[tx_buffer_head s := c],
                     tx_buffer_head := (tx_buffer_head s + 1) mod N,
                     CTRLA := CTRLA s OR USART_DREIE_bm\<rparr>)
        \<and> (tx_wf N s \<longrightarrow>
             tx_queued N (s\<lparr>tx_buffer := (tx_buffer s)[tx_buffer_head s := c],
                              tx_buffer_head := (tx_buffer_head s + 1) mod N,
                              CTRLA := CTRLA s OR USART_DREIE_bm\<rparr>)
             = tx_queued N s @ [c]))
   \<and> (\<not> (\<not> dreie s \<and> dreif s) \<and> (tx_buffer_head s + 1) mod N = tx_buffer_tail s \<longrightarrow>
        write_attempt N c s = None
        \<and> uart_write N [] c s = None
        \<and> uart_write N ((a, b) # env) c s =
            uart_write N env c (hw_run N b (poll_tx_data_empty N (hw_run N a s))))"
proof (intro conjI impI)
  assume "uart_write N env c s = Some (r, s')"
  then show "r = 1" by (rule uart_write_one)
next
  assume "\<not> dreie s \<and> dreif s"
  then show "uart_write N env c s =
      Some (1, s\<lparr>TXDATAL := c, STATUS := STATUS s AND NOT USART_TXCIF_bm, written := True\<rparr>)"
    by (simp add: uart_write_now write_attempt_fast)
next
  assume h: "\<not> (\<not> dreie s \<and> dreif s) \<and> (tx_buffer_head s + 1) mod N \<noteq> tx_buffer_tail s"
  then show "uart_write N env c s =
      Some (1, s\<lparr>tx_buffer := (tx_buffer s)[tx_buffer_head s := c],
                 tx_buffer_head := (tx_buffer_head s + 1) mod N,
                 CTRLA := CTRLA s OR USART_DREIE_bm\<rparr>)"
    by (simp add: uart_write_now write_attempt_buffered)
  show "dreie (s\<lparr>tx_buffer := (tx_buffer s)[tx_buffer_head s := c],
                 tx_buffer_head := (tx_buffer_head s + 1) mod N,
                 CTRLA := CTRLA s OR USART_DREIE_bm\<rparr>)"
    by (simp add: dreie_def USART_DREIE_bm_def bit.conj_disj_distrib2)
  assume wf: "tx_wf N s"
  from h have ne: "(tx_buffer_head s + 1) mod N \<noteq> tx_buffer_tail s" by simp
  show "tx_queued N (s\<lparr>tx_buffer := (tx_buffer s)[tx_buffer_head s := c],
                        tx_buffer_head := (tx_buffer_head s + 1) mod N,
                        CTRLA := CTRLA s OR USART_DREIE_bm\<rparr>)
        = tx_queued N s @ [c]"
    by (rule queued_push [OF wf ne]) simp_all
next
  assume h: "\<not> (\<not> dreie s \<and> dreif s) \<and> (tx_buffer_head s + 1) mod N = tx_buffer_tail s"
  then have n: "write_attempt N c s = None"
    by (simp add: write_attempt_full)
  then show "write_attempt N c s = None" .
  from n show "uart_write N [] c s = None" by simp
  from n show "uart_write N ((a, b) # env) c s =
      uart_write N env c (hw_run N b (poll_tx_data_empty N (hw_run N a s)))"
    by (simp add: spin_def)
qed

lemmas mask_defs = USART_RXCIE_bm_def USART_DREIE_bm_def USART_RXEN_bm_def USART_TXEN_bm_def
  USART_RXMODE_NORMAL_gc_def USART_RXMODE_CLK2X_gc_def USART_TXCIF_bm_def USART_DREIF_bm_def

theorem uart_write_returns_one_witness:
  "uart_write 4 [] 0x5A port4 = Some (1, port4\<lparr>TXDATAL := 0x5A, written := True\<rparr>)
   \<and> uart_write 4 [] 0x5A port4_queued =
       Some (1, port4_queued\<lparr>tx_buffer := [0x41, 0x5A, 0, 0], tx_buffer_head := 2\<rparr>)
   \<and> tx_queued 4 (port4_queued\<lparr>tx_buffer := [0x41, 0x5A, 0, 0], tx_buffer_head := 2\<rparr>)
       = [0x41, 0x5A]
   \<and> uart_write 4 [] 0x5A port4_full = None
   \<and> uart_write 4 [([], [])] 0x5A port4_full =
       Some (1, port4_full\<lparr>tx_buffer_tail := 1, TXDATAL := 0x41,
                            tx_buffer := [0x41, 0x42, 0x43, 0x5A], tx_buffer_head := 0\<rparr>)"
proof -
  note W = uart_write_returns_one [where N = 4 and c = "0x5A" and r = 1 and a = "[]" and b = "[]"]
  have fast: "\<not> dreie port4 \<and> dreif port4"
    by (simp add: dreie_def dreif_def mask_defs port4_def)
  with W [where s = port4 and env = "[]"]
  have "uart_write 4 [] 0x5A port4 =
      Some (1, port4\<lparr>TXDATAL := 0x5A, STATUS := STATUS port4 AND NOT USART_TXCIF_bm,
                       written := True\<rparr>)"
    by blast
  then have 1: "uart_write 4 [] 0x5A port4 = Some (1, port4\<lparr>TXDATAL := 0x5A, written := True\<rparr>)"
    by (simp add: port4_def mask_defs)
  have buffered: "\<not> (\<not> dreie port4_queued \<and> dreif port4_queued)
      \<and> (tx_buffer_head port4_queued + 1) mod 4 \<noteq> tx_buffer_tail port4_queued"
    by (simp add: dreie_def mask_defs port4_queued_def port4_def)
  have wf: "tx_wf 4 port4_queued"
    by (simp add: tx_wf_def port4_queued_def port4_def)
  have upd: "port4_queued\<lparr>tx_buffer := (tx_buffer port4_queued)[tx_buffer_head port4_queued := 0x5A],
        tx_buffer_head := (tx_buffer_head port4_queued + 1) mod 4,
        CTRLA := CTRLA port4_queued OR USART_DREIE_bm\<rparr>
      = port4_queued\<lparr>tx_buffer := [0x41, 0x5A, 0, 0], tx_buffer_head := 2\<rparr>"
    by (simp add: port4_queued_def port4_def mask_defs)
  have q: "tx_queued 4 port4_queued = [0x41]"
    by (simp add: tx_queued_def tx_count_def port4_queued_def port4_def)
  from W [where s = port4_queued and env = "[]"] buffered wf
  have 2: "uart_write 4 [] 0x5A port4_queued =
      Some (1, port4_queued\<lparr>tx_buffer := [0x41, 0x5A, 0, 0], tx_buffer_head := 2\<rparr>)"
    and 3: "tx_queued 4 (port4_queued\<lparr>tx_buffer := [0x41, 0x5A, 0, 0], tx_buffer_head := 2\<rparr>)
      = tx_queued 4 port4_queued @ [0x5A]"
    unfolding upd by blast+
  have full: "\<not> (\<not> dreie port4_full \<and> dreif port4_full)
      \<and> (tx_buffer_head port4_full + 1) mod 4 = tx_buffer_tail port4_full"
    by (simp add: dreie_def mask_defs port4_full_def port4_def)
  with W [where s = port4_full and env = "[]"]
  have 4: "uart_write 4 [] 0x5A port4_full = None"
    and "uart_write 4 [([], [])] 0x5A port4_full =
      uart_write 4 [] 0x5A (hw_run 4 [] (poll_tx_data_empty 4 (hw_run 4 [] port4_full)))"
    by blast+
  then have 5: "uart_write 4 [([], [])] 0x5A port4_full =
      Some (1, port4_full\<lparr>tx_buffer_tail := 1, TXDATAL := 0x41,
                           tx_buffer := [0x41, 0x42, 0x43, 0x5A], tx_buffer_head := 0\<rparr>)"
    by (simp add: write_attempt_def poll_tx_data_empty_def tx_data_empty_irq_def
        write_STATUS_def dreie_def dreif_def mask_defs port4_full_def port4_def Let_def)
  from 1 2 3 4 5 q show ?thesis by simp
qed

section \<open>Progress of a write\<close>

lemma irq_tx_inv: "tx_inv s \<Longrightarrow> dreie s \<Longrightarrow> tx_inv (tx_data_empty_irq N s)"
  by (simp add: tx_inv_def)

lemma poll_tx_inv: "tx_inv s \<Longrightarrow> tx_inv (poll_tx_data_empty N s)"
  by (simp add: poll_tx_data_empty_def irq_tx_inv)

lemma hw_step_tx_inv: "tx_inv s \<Longrightarrow> tx_inv (hw_step N e s)"
  by (cases e) (simp_all add: irq_tx_inv, simp_all add: tx_inv_def)

lemma hw_run_tx_inv: "tx_inv s \<Longrightarrow> tx_inv (hw_run N es s)"
  by (induction es arbitrary: s) (simp_all add: hw_step_tx_inv)

lemma tx_inv_dre_inv: "tx_inv s \<Longrightarrow> dre_inv s"
  by (simp add: tx_inv_def dre_inv_def)

lemma poll_count:
  assumes "tx_wf N s" "dre_inv s"
  shows "tx_count N (poll_tx_data_empty N s) \<le> tx_count N s"
proof (cases "dreie s \<and> dreif s")
  case True
  with assms(2) have "tx_buffer_head s \<noteq> tx_buffer_tail s" by (simp add: dre_inv_def)
  from count_pop [OF assms(1) this] True show ?thesis
    by (simp add: poll_tx_data_empty_def)
next
  case False
  then show ?thesis by (auto simp add: poll_tx_data_empty_def)
qed

lemma hw_step_count:
  assumes "tx_wf N s" "dre_inv s"
  shows "tx_count N (hw_step N e s) \<le> tx_count N s"
proof (cases e)
  case DreInterrupt
  with poll_count [OF assms] show ?thesis by (simp add: poll_tx_data_empty_def)
qed (simp_all add: tx_count_def)

lemma hw_run_count:
  "tx_wf N s \<Longrightarrow> dre_inv s \<Longrightarrow> tx_count N (hw_run N es s) \<le> tx_count N s"
proof (induction es arbitrary: s)
  case Nil
  then show ?case by simp
next
  case (Cons e es)
  have "tx_count N (hw_run N es (hw_step N e s)) \<le> tx_count N (hw_step N e s)"
    using Cons.prems by (intro Cons.IH hw_step_wf hw_step_dre_inv)
  also have "\<dots> \<le> tx_count N s"
    using Cons.prems by (rule hw_step_count)
  finally show ?case by simp
qed

lemma full_iff:
  assumes "tx_wf N s"
  shows "(tx_buffer_head s + 1) mod N = tx_buffer_tail s \<longleftrightarrow> tx_count N s = N - 1"
proof -
  let ?h = "tx_buffer_head s" and ?t = "tx_buffer_tail s"
  from assms have b: "0 < N" "?h < N" "?t < N" by (simp_all add: tx_wf_def)
  show ?thesis
  proof (cases "Suc ?h = N")
    case True
    then have "(?h + 1) mod N = 0" by simp
    with True b show ?thesis by (auto simp add: tx_count_alt [OF assms])
  next
    case False
    with b have "(?h + 1) mod N = Suc ?h" by simp
    with False b show ?thesis by (auto simp add: tx_count_alt [OF assms])
  qed
qed

lemma write_attempt_None:
  "write_attempt N c s = None \<Longrightarrow> (tx_buffer_head s + 1) mod N = tx_buffer_tail s"
  by (simp add: write_attempt_def Let_def split: if_splits)

lemma write_attempt_Some:
  "(tx_buffer_head s + 1) mod N \<noteq> tx_buffer_tail s \<Longrightarrow> \<exists>s'. write_attempt N c s = Some (1, s')"
  by (simp add: write_attempt_def Let_def)

text \<open>
  A full, well-formed port on which the interrupt enable mirrors the buffer, of at least two
  slots: if the data register is empty when the manual poll looks, the poll (or the
  interrupt before it) frees a slot and the second attempt returns.
\<close>

lemma uart_write_progress:
  assumes wf: "tx_wf N s" and inv: "tx_inv s" and N: "2 \<le> N"
    and ready: "dreif (hw_run N a s)"
  shows "\<exists>s'. uart_write N ((a, b) # env) c s = Some (1, s')"
proof (cases "write_attempt N c s")
  case (Some p)
  then have "uart_write N ((a, b) # env) c s = Some (fst p, snd p)" by simp
  moreover from Some have "fst p = 1" by (cases p) (auto dest: write_attempt_one)
  ultimately show ?thesis by auto
next
  case None
  let ?s1 = "hw_run N a s"
  let ?s2 = "poll_tx_data_empty N ?s1"
  let ?s3 = "hw_run N b ?s2"
  have wf1: "tx_wf N ?s1" using wf by (rule hw_run_wf)
  have inv1: "tx_inv ?s1" using inv by (rule hw_run_tx_inv)
  have wf2: "tx_wf N ?s2" using wf1 by (rule poll_wf)
  have inv2: "tx_inv ?s2" using inv1 by (rule poll_tx_inv)
  have wf3: "tx_wf N ?s3" using wf2 by (rule hw_run_wf)
  have c1: "tx_count N ?s1 \<le> N - 1"
    using hw_run_count [OF wf tx_inv_dre_inv [OF inv], of a]
      full_iff [OF wf] write_attempt_None [OF None] by simp
  have c2: "tx_count N ?s2 < N - 1"
  proof (cases "dreie ?s1")
    case True
    with inv1 have ne: "tx_buffer_head ?s1 \<noteq> tx_buffer_tail ?s1" by (simp add: tx_inv_def)
    from True ready have "?s2 = tx_data_empty_irq N ?s1" by (simp add: poll_tx_data_empty_def)
    with count_pop [OF wf1 ne] c1 show ?thesis by simp
  next
    case False
    with inv1 have "tx_buffer_head ?s1 = tx_buffer_tail ?s1" by (simp add: tx_inv_def)
    moreover from False have "?s2 = ?s1" by (simp add: poll_tx_data_empty_def)
    ultimately have "tx_count N ?s2 = 0" using wf1 by (simp add: tx_count_def tx_wf_def)
    with N show ?thesis by simp
  qed
  have "tx_count N ?s3 \<le> tx_count N ?s2"
    using wf2 tx_inv_dre_inv [OF inv2] by (rule hw_run_count)
  with c2 have "tx_count N ?s3 \<noteq> N - 1" by simp
  with full_iff [OF wf3] have "(tx_buffer_head ?s3 + 1) mod N \<noteq> tx_buffer_tail ?s3" by simp
  then obtain s' where "write_attempt N c ?s3 = Some (1, s')"
    using write_attempt_Some by blast
  then have "uart_write N env c ?s3 = Some (1, s')" by (rule uart_write_now)
  with None show ?thesis by (simp add: spin_def)
qed

section \<open>Flushing\<close>

lemma flush_loop_exit: "flush_loop N env s = Some s' \<Longrightarrow> \<not> dreie s' \<and> txcif s'"
  by (induction env arbitrary: s) (auto split: if_splits)


lemma flush_loop_turn:
  "dreie s \<or> \<not> txcif s \<Longrightarrow> flush_loop N (t # env) s = flush_loop N env (spin N t s)"
  by simp

lemma flush_loop_starved: "dreie s \<or> \<not> txcif s \<Longrightarrow> flush_loop N [] s = None"
  by simp

lemma flush_loop_wf: "flush_loop N env s = Some s' \<Longrightarrow> tx_wf N s \<Longrightarrow> tx_wf N s'"
  by (induction env arbitrary: s) (auto split: if_splits intro: spin_wf)

lemma flush_loop_dre_inv: "flush_loop N env s = Some s' \<Longrightarrow> dre_inv s \<Longrightarrow> dre_inv s'"
  by (induction env arbitrary: s) (auto split: if_splits intro: spin_dre_inv)

lemma spin_tx_inv: "tx_inv s \<Longrightarrow> tx_inv (spin N t s)"
  by (simp add: spin_def hw_run_tx_inv poll_tx_inv)

lemma flush_loop_tx_inv: "flush_loop N env s = Some s' \<Longrightarrow> tx_inv s \<Longrightarrow> tx_inv s'"
  by (induction env arbitrary: s) (auto split: if_splits intro: spin_tx_inv)

lemma flush_loop_written: "flush_loop N env s = Some s' \<Longrightarrow> written s' = written s"
  by (induction env arbitrary: s) (auto split: if_splits)

lemma hw_run_rx [simp]:
  "rx_buffer_head (hw_run N es s) = rx_buffer_head s"
  "rx_buffer_tail (hw_run N es s) = rx_buffer_tail s"
  by (induction es arbitrary: s) simp_all

lemma spin_rx [simp]:
  "rx_buffer_head (spin N t s) = rx_buffer_head s"
  "rx_buffer_tail (spin N t s) = rx_buffer_tail s"
  by (simp_all add: spin_def poll_tx_data_empty_def)

lemma flush_loop_rx:
  "flush_loop N env s = Some s' \<Longrightarrow>
   rx_buffer_head s' = rx_buffer_head s \<and> rx_buffer_tail s' = rx_buffer_tail s"
  by (induction env arbitrary: s) (auto split: if_splits)

lemma flush_unwritten: "\<not> written s \<Longrightarrow> flush N env s = Some s"
  by (simp add: flush_def)

lemma flush_written: "written s \<Longrightarrow> flush N env s = flush_loop N env s"
  by (simp add: flush_def)

lemma flush_wf: "flush N env s = Some s' \<Longrightarrow> tx_wf N s \<Longrightarrow> tx_wf N s'"
  by (auto simp add: flush_def split: if_splits intro: flush_loop_wf)

lemma flush_dre_inv: "flush N env s = Some s' \<Longrightarrow> dre_inv s \<Longrightarrow> dre_inv s'"
  by (auto simp add: flush_def split: if_splits intro: flush_loop_dre_inv)

lemma flush_tx_inv: "flush N env s = Some s' \<Longrightarrow> tx_inv s \<Longrightarrow> tx_inv s'"
  by (auto simp add: flush_def split: if_splits intro: flush_loop_tx_inv)

lemma flush_written_same: "flush N env s = Some s' \<Longrightarrow> written s' = written s"
  by (auto simp add: flush_def split: if_splits dest: flush_loop_written)

lemma flush_rx:
  "flush N env s = Some s' \<Longrightarrow>
   rx_buffer_head s' = rx_buffer_head s \<and> rx_buffer_tail s' = rx_buffer_tail s"
  by (auto simp add: flush_def split: if_splits dest: flush_loop_rx)

text \<open>
  What a flush that had something to wait for guarantees: the interrupt enable is clear and
  the transmit-complete flag is up; the buffer is empty if the enable bit mirrored it when
  the flush began.
\<close>

lemma flush_drained:
  assumes "flush N env s = Some s'" "written s"
  shows "\<not> dreie s' \<and> txcif s'"
    and "tx_inv s \<Longrightarrow> tx_buffer_head s' = tx_buffer_tail s'"
proof -
  from assms have l: "flush_loop N env s = Some s'" by (simp add: flush_def)
  then show e: "\<not> dreie s' \<and> txcif s'" by (rule flush_loop_exit)
  assume "tx_inv s"
  with l have "tx_inv s'" by (rule flush_loop_tx_inv)
  with e show "tx_buffer_head s' = tx_buffer_tail s'" by (simp add: tx_inv_def)
qed

section \<open>The written flag\<close>

lemma write_attempt_effect:
  "write_attempt N c s = Some (r, s') \<Longrightarrow>
   (if \<not> dreie s \<and> dreif s
    then written s' \<and> TXDATAL s' = c \<and> tx_buffer_head s' = tx_buffer_head s
         \<and> tx_buffer_tail s' = tx_buffer_tail s \<and> tx_buffer s' = tx_buffer s
         \<and> CTRLA s' = CTRLA s
    else written s' = written s \<and> TXDATAL s' = TXDATAL s
         \<and> tx_buffer_head s' = (tx_buffer_head s + 1) mod N
         \<and> tx_buffer_tail s' = tx_buffer_tail s
         \<and> tx_buffer s' = (tx_buffer s)[tx_buffer_head s := c]
         \<and> tx_buffer_head s' \<noteq> tx_buffer_tail s' \<and> dreie s')"
proof -
  have "dreie (s\<lparr>tx_buffer := xs, tx_buffer_head := h, CTRLA := CTRLA s OR USART_DREIE_bm\<rparr>)"
    for xs h
    by (simp add: dreie_def USART_DREIE_bm_def bit.conj_disj_distrib2)
  then show "write_attempt N c s = Some (r, s') \<Longrightarrow> ?thesis"
    by (auto simp add: write_attempt_def Let_def split: if_splits)
qed

lemma uart_write_last:
  "uart_write N env c s = Some (r, s') \<Longrightarrow>
   \<exists>s0. write_attempt N c s0 = Some (r, s') \<and> written s0 = written s"
proof (induction env arbitrary: s)
  case Nil
  then show ?case by auto
next
  case (Cons t env)
  show ?case
  proof (cases "write_attempt N c s")
    case None
    with Cons.prems have "uart_write N env c (spin N t s) = Some (r, s')" by simp
    from Cons.IH [OF this] show ?thesis by simp
  next
    case (Some p)
    with Cons.prems show ?thesis by auto
  qed
qed

text \<open>
  C10. Of the two returning branches of the atomic block of \<^verbatim>\<open>write\<close> only the fast path
  sets \<open>written\<close>; the buffered path stores the byte and advances the head but leaves
  \<open>written\<close> as it was. So when a call of \<^verbatim>\<open>write\<close> returns with \<open>written\<close> still
  false, the byte is queued, the interrupt is enabled, and a following \<^verbatim>\<open>flush\<close> returns
  at once, changing nothing, whatever the hardware does.
\<close>

theorem written_only_on_fast_path:
  "(write_attempt N c s = Some (r, s') \<longrightarrow>
      (if \<not> dreie s \<and> dreif s
       then written s' \<and> TXDATAL s' = c \<and> tx_buffer_head s' = tx_buffer_head s
            \<and> tx_buffer_tail s' = tx_buffer_tail s \<and> tx_buffer s' = tx_buffer s
            \<and> CTRLA s' = CTRLA s
       else written s' = written s \<and> TXDATAL s' = TXDATAL s
            \<and> tx_buffer_head s' = (tx_buffer_head s + 1) mod N
            \<and> tx_buffer_tail s' = tx_buffer_tail s
            \<and> tx_buffer s' = (tx_buffer s)[tx_buffer_head s := c]
            \<and> tx_buffer_head s' \<noteq> tx_buffer_tail s' \<and> dreie s'))
   \<and> (uart_write N env c s = Some (r, s') \<and> \<not> written s' \<longrightarrow>
        \<not> written s \<and> dreie s' \<and> tx_buffer_head s' \<noteq> tx_buffer_tail s'
        \<and> flush N env' s' = Some s')"
proof (intro conjI impI)
  assume "write_attempt N c s = Some (r, s')"
  then show "if \<not> dreie s \<and> dreif s
       then written s' \<and> TXDATAL s' = c \<and> tx_buffer_head s' = tx_buffer_head s
            \<and> tx_buffer_tail s' = tx_buffer_tail s \<and> tx_buffer s' = tx_buffer s
            \<and> CTRLA s' = CTRLA s
       else written s' = written s \<and> TXDATAL s' = TXDATAL s
            \<and> tx_buffer_head s' = (tx_buffer_head s + 1) mod N
            \<and> tx_buffer_tail s' = tx_buffer_tail s
            \<and> tx_buffer s' = (tx_buffer s)[tx_buffer_head s := c]
            \<and> tx_buffer_head s' \<noteq> tx_buffer_tail s' \<and> dreie s'"
    by (rule write_attempt_effect)
next
  assume a: "uart_write N env c s = Some (r, s') \<and> \<not> written s'"
  then obtain s0 where s0: "write_attempt N c s0 = Some (r, s')" "written s0 = written s"
    using uart_write_last by blast
  from write_attempt_effect [OF s0(1)] a s0(2)
  have "\<not> written s \<and> dreie s' \<and> tx_buffer_head s' \<noteq> tx_buffer_tail s'"
    by (cases "\<not> dreie s0 \<and> dreif s0") auto
  then show "\<not> written s" "dreie s'" "tx_buffer_head s' \<noteq> tx_buffer_tail s'"
    by simp_all
  from a show "flush N env' s' = Some s'" by (simp add: flush_unwritten)
qed

theorem written_only_on_fast_path_witness:
  "uart_write 4 [] 0x41 port4_busy = Some (1, port4_behind)
   \<and> \<not> written port4_busy \<and> \<not> written port4_behind
   \<and> tx_queued 4 port4_behind = [0x41]
   \<and> flush 4 [] port4_behind = Some port4_behind
   \<and> write_attempt 4 0x42 port4_idle = Some (1, port4_fast)
   \<and> \<not> written port4_idle \<and> written port4_fast"
proof -
  have w: "uart_write 4 [] 0x41 port4_busy = Some (1, port4_behind)"
    by (simp add: write_attempt_def dreie_def dreif_def mask_defs Let_def
        port4_behind_def port4_busy_def port4_begun_def port4_def)
  have n: "\<not> written port4_behind"
    by (simp add: port4_behind_def port4_busy_def port4_begun_def port4_def)
  have n0: "\<not> written port4_busy"
    by (simp add: port4_busy_def port4_begun_def port4_def)
  have q: "tx_queued 4 port4_behind = [0x41]"
    by (simp add: tx_queued_def tx_count_def
        port4_behind_def port4_busy_def port4_begun_def port4_def)
  have f: "write_attempt 4 0x42 port4_idle = Some (1, port4_fast)"
    by (simp add: write_attempt_def write_STATUS_def dreie_def dreif_def mask_defs Let_def
        port4_fast_def port4_idle_def port4_again_def port4_ended_def
        port4_behind_def port4_busy_def port4_begun_def port4_def)
  have i: "\<not> dreie port4_idle \<and> dreif port4_idle"
    by (simp add: dreie_def dreif_def mask_defs port4_idle_def port4_again_def port4_ended_def
        port4_behind_def port4_busy_def port4_begun_def port4_def)
  have n1: "\<not> written port4_idle"
    by (simp add: port4_idle_def port4_again_def port4_ended_def
        port4_behind_def port4_busy_def port4_begun_def port4_def)
  from written_only_on_fast_path
    [of 4 "0x41" port4_busy 1 port4_behind "[]" "[]"] w n
  have "flush 4 [] port4_behind = Some port4_behind" by blast
  moreover from written_only_on_fast_path
    [of 4 "0x42" port4_idle 1 port4_fast "[]" "[]"] f i
  have "written port4_fast" by simp
  ultimately show ?thesis using w n n0 q f n1 by simp
qed

section \<open>Ending and beginning\<close>

lemma uart_end_Some:
  "uart_end N env s = Some s' \<longleftrightarrow>
   (\<exists>s1. flush N env s = Some s1 \<and>
      s' = s1\<lparr>CTRLB := CTRLB s1 AND NOT (USART_RXEN_bm OR USART_TXEN_bm),
                CTRLA := CTRLA s1 AND NOT (USART_RXCIE_bm OR USART_DREIE_bm),
                rx_buffer_head := rx_buffer_tail s1,
                written := False\<rparr>)"
  by (auto simp add: uart_end_def split: option.splits)

lemma not_enabled_cleared:
  "\<not> port_enabled (s\<lparr>CTRLB := CTRLB s AND NOT (USART_RXEN_bm OR USART_TXEN_bm)\<rparr>)"
proof -
  have "(x AND NOT (0x80 OR 0x40)) AND (0x80 OR 0x40) \<noteq> (0x80 OR 0x40)" for x :: u8
    by (simp add: and.assoc)
  then show ?thesis by (simp add: port_enabled_def mask_defs)
qed

lemma uart_end_post:
  assumes "uart_end N env s = Some s'"
  shows "\<not> dreie s'" "\<not> written s'" "rx_buffer_head s' = rx_buffer_tail s'"
    "rx_buffer_tail s' = rx_buffer_tail s" "\<not> port_enabled s'"
proof -
  from assms obtain s1 where f: "flush N env s = Some s1"
    and s': "s' = s1\<lparr>CTRLB := CTRLB s1 AND NOT (USART_RXEN_bm OR USART_TXEN_bm),
                CTRLA := CTRLA s1 AND NOT (USART_RXCIE_bm OR USART_DREIE_bm),
                rx_buffer_head := rx_buffer_tail s1,
                written := False\<rparr>"
    by (auto simp add: uart_end_Some)
  show "\<not> dreie s'" by (simp add: s' dreie_def mask_defs and.assoc)
  show "\<not> written s'" by (simp add: s')
  show "rx_buffer_head s' = rx_buffer_tail s'" by (simp add: s')
  show "rx_buffer_tail s' = rx_buffer_tail s" using flush_rx [OF f] by (simp add: s')
  show "\<not> port_enabled s'"
    using not_enabled_cleared [of s1] by (simp add: s' port_enabled_def)
qed

lemma uart_end_tx:
  assumes "uart_end N env s = Some s'"
  shows "\<exists>s1. flush N env s = Some s1 \<and> tx_buffer_head s' = tx_buffer_head s1
      \<and> tx_buffer_tail s' = tx_buffer_tail s1 \<and> tx_buffer s' = tx_buffer s1"
  using assms by (auto simp add: uart_end_Some)

lemma uart_end_wf: "uart_end N env s = Some s' \<Longrightarrow> tx_wf N s \<Longrightarrow> tx_wf N s'"
  using uart_end_tx [of N env s s'] by (auto simp add: tx_wf_def dest: flush_wf)

lemma uart_end_dre_inv: "uart_end N env s = Some s' \<Longrightarrow> dre_inv s'"
  by (simp add: dre_inv_def uart_end_post(1))

lemma uart_end_drained:
  assumes "uart_end N env s = Some s'" "written s" "tx_inv s"
  shows "tx_buffer_head s' = tx_buffer_tail s'"
proof -
  from uart_end_tx [OF assms(1)] obtain s1 where f: "flush N env s = Some s1"
    and "tx_buffer_head s' = tx_buffer_head s1" "tx_buffer_tail s' = tx_buffer_tail s1"
    by blast
  with flush_drained(2) [OF f assms(2,3)] show ?thesis by simp
qed

lemma begin_setup_frame [simp]:
  "tx_buffer_head (begin_setup bs config s) = tx_buffer_head s"
  "tx_buffer_tail (begin_setup bs config s) = tx_buffer_tail s"
  "tx_buffer (begin_setup bs config s) = tx_buffer s"
  "rx_buffer_head (begin_setup bs config s) = rx_buffer_head s"
  "rx_buffer_tail (begin_setup bs config s) = rx_buffer_tail s"
  "written (begin_setup bs config s) = written s"
  "STATUS (begin_setup bs config s) = STATUS s"
  "TXDATAL (begin_setup bs config s) = TXDATAL s"
  "BAUD (begin_setup bs config s) = ucast bs"
  "CTRLC (begin_setup bs config s) = ucast config"
  "CTRLA (begin_setup bs config s) = CTRLA s OR USART_RXCIE_bm"
  by (simp_all add: begin_setup_def Let_def)

lemma begin_setup_dreie [simp]: "dreie (begin_setup bs config s) = dreie s"
  by (simp add: dreie_def mask_defs bit.conj_disj_distrib2)

lemma begin_setup_enabled: "port_enabled (begin_setup bs config s)"
proof -
  have "(x OR (0x80 OR 0x40)) AND (0x80 OR 0x40) = (0x80 OR 0x40)" for x :: u8
    by (simp add: bit.conj_disj_distrib2)
  then show ?thesis by (simp add: port_enabled_def begin_setup_def Let_def mask_defs)
qed

lemma begin_setup_idem:
  "begin_setup bs config (begin_setup bs config s) = begin_setup bs config s"
proof -
  have "(x OR m) OR m = x OR m" for x m :: u8
    by (simp add: or.assoc)
  moreover have "((x AND NOT 0x02) OR (0x80 OR 0x40)) AND NOT 0x02 OR (0x80 OR 0x40)
      = (x AND NOT 0x02) OR (0x80 OR 0x40)" for x :: u8
    by (simp add: bit.conj_disj_distrib2 and.assoc or.assoc)
  ultimately show ?thesis
    by (simp add: begin_setup_def Let_def mask_defs)
qed

lemma uart_begin_unwritten:
  "\<not> written s \<Longrightarrow> baud_setting F trim baud = Some bs \<Longrightarrow>
   uart_begin N env F trim baud config s = Inr (begin_setup bs config s)"
  by (simp add: uart_begin_def)

lemma uart_begin_written:
  assumes "written s" "baud_setting F trim baud = Some bs"
  shows "uart_begin N env F trim baud config s =
     (case uart_end N env s of
        None \<Rightarrow> Inl Unfinished
      | Some s1 \<Rightarrow> Inr (begin_setup bs config s1))"
proof (cases "uart_end N env s")
  case None
  with assms show ?thesis by (simp add: uart_begin_def)
next
  case (Some s1)
  then have "s1\<lparr>written := False\<rparr> = s1"
    using uart_end_post(2) [OF Some] by simp
  with Some assms show ?thesis by (simp add: uart_begin_def)
qed

lemma uart_begin_Inr:
  assumes "uart_begin N env F trim baud config s = Inr s'"
  obtains bs s1 where "baud_setting F trim baud = Some bs" "s' = begin_setup bs config s1"
    "if written s then uart_end N env s = Some s1 else s1 = s"
proof (cases "baud_setting F trim baud")
  case None
  with assms show ?thesis
    by (auto simp add: uart_begin_def split: if_splits option.splits sum.splits)
next
  case (Some bs)
  show ?thesis
  proof (cases "written s")
    case True
    with assms Some uart_begin_written [OF True Some, of N env config] that show ?thesis
      by (auto split: option.splits)
  next
    case False
    with assms Some uart_begin_unwritten [OF False Some, of N env config] that show ?thesis
      by auto
  qed
qed

lemma uart_begin_wf:
  assumes "uart_begin N env F trim baud config s = Inr s'" "tx_wf N s"
  shows "tx_wf N s'"
proof -
  from assms(1) obtain bs s1 where s': "s' = begin_setup bs config s1"
    and s1: "if written s then uart_end N env s = Some s1 else s1 = s"
    by (rule uart_begin_Inr)
  from s1 assms(2) have "tx_wf N s1" by (auto split: if_splits intro: uart_end_wf)
  then show ?thesis by (simp add: s' tx_wf_def)
qed

lemma uart_begin_dre_inv:
  assumes "uart_begin N env F trim baud config s = Inr s'" "dre_inv s"
  shows "dre_inv s'"
proof -
  from assms(1) obtain bs s1 where s': "s' = begin_setup bs config s1"
    and s1: "if written s then uart_end N env s = Some s1 else s1 = s"
    by (rule uart_begin_Inr)
  from s1 assms(2) have "dre_inv s1" by (auto split: if_splits intro: uart_end_dre_inv)
  then show ?thesis by (simp add: s' dre_inv_def)
qed

section \<open>What every reachable port satisfies\<close>

lemma write_attempt_wf:
  "write_attempt N c s = Some (r, s') \<Longrightarrow> tx_wf N s \<Longrightarrow> tx_wf N s'"
proof -
  assume wf: "tx_wf N s" and w: "write_attempt N c s = Some (r, s')"
  from wf have m: "(tx_buffer_head s + 1) mod N < N" by (simp add: tx_wf_def)
  from wf have b: "0 < N" "length (tx_buffer s) = N" "tx_buffer_head s < N" "tx_buffer_tail s < N"
    by (simp_all add: tx_wf_def)
  from write_attempt_effect [OF w]
  have e: "tx_buffer_tail s' = tx_buffer_tail s" "length (tx_buffer s') = length (tx_buffer s)"
    "tx_buffer_head s' = tx_buffer_head s \<or> tx_buffer_head s' = (tx_buffer_head s + 1) mod N"
    by (auto split: if_splits)
  show ?thesis unfolding tx_wf_def
  proof (intro conjI)
    show "0 < N" by fact
    show "length (tx_buffer s') = N" using e(2) b(2) by simp
    show "tx_buffer_head s' < N" using e(3) b(3) m by auto
    show "tx_buffer_tail s' < N" using e(1) b(4) by simp
  qed
qed

lemma write_attempt_dre_inv:
  "write_attempt N c s = Some (r, s') \<Longrightarrow> dre_inv s \<Longrightarrow> dre_inv s'"
  by (auto simp add: write_attempt_def Let_def dre_inv_def split: if_splits)

lemma uart_write_wf:
  "uart_write N env c s = Some (r, s') \<Longrightarrow> tx_wf N s \<Longrightarrow> tx_wf N s'"
proof (induction env arbitrary: s)
  case Nil
  then show ?case by (auto intro: write_attempt_wf)
next
  case (Cons t env)
  then show ?case
    by (cases "write_attempt N c s") (auto intro: write_attempt_wf spin_wf)
qed

lemma uart_write_dre_inv:
  "uart_write N env c s = Some (r, s') \<Longrightarrow> dre_inv s \<Longrightarrow> dre_inv s'"
proof (induction env arbitrary: s)
  case Nil
  then show ?case by (auto intro: write_attempt_dre_inv)
next
  case (Cons t env)
  then show ?case
    by (cases "write_attempt N c s") (auto intro: write_attempt_dre_inv spin_dre_inv)
qed

text \<open>
  On every reachable port the indices are inside the array and the interrupt enable is set
  only when the buffer is non-empty.
\<close>

lemma reachable_dre_inv: "reachable N s \<Longrightarrow> tx_wf N s \<and> dre_inv s"
proof (induction rule: reachable.induct)
  case (begun s0 env F trim baud config s)
  then have "tx_wf N s0" "dre_inv s0" by (simp_all add: fresh_port_def dre_inv_def)
  with begun(2) show ?case by (blast intro: uart_begin_wf uart_begin_dre_inv)
next
  case (hw s e)
  then show ?case by (simp add: hw_step_wf hw_step_dre_inv)
next
  case (wrote s env c r s')
  then show ?case by (blast intro: uart_write_wf uart_write_dre_inv)
next
  case (polled s)
  then show ?case by (simp add: poll_wf poll_dre_inv)
next
  case (flushed s env s')
  then show ?case by (blast intro: flush_wf flush_dre_inv)
next
  case (ended s env s')
  then show ?case by (blast intro: uart_end_wf uart_end_dre_inv)
next
  case (rebegun s env F trim baud config s')
  then show ?case by (blast intro: uart_begin_wf uart_begin_dre_inv)
qed

section \<open>Where the mirror breaks\<close>

lemma write_attempt_tx_inv:
  "write_attempt N c s = Some (r, s') \<Longrightarrow> tx_inv s \<Longrightarrow> tx_inv s'"
proof -
  assume w: "write_attempt N c s = Some (r, s')" and i: "tx_inv s"
  show ?thesis
  proof (cases "\<not> dreie s \<and> dreif s")
    case True
    with write_attempt_effect [OF w]
    have "CTRLA s' = CTRLA s" "tx_buffer_head s' = tx_buffer_head s"
      "tx_buffer_tail s' = tx_buffer_tail s"
      by simp_all
    with i show ?thesis by (simp add: tx_inv_def dreie_def)
  next
    case False
    with write_attempt_effect [OF w]
    have "dreie s'" "tx_buffer_head s' \<noteq> tx_buffer_tail s'"
      by simp_all
    then show ?thesis by (simp add: tx_inv_def)
  qed
qed

lemma uart_write_tx_inv:
  "uart_write N env c s = Some (r, s') \<Longrightarrow> tx_inv s \<Longrightarrow> tx_inv s'"
proof (induction env arbitrary: s)
  case Nil
  then show ?case by (auto intro: write_attempt_tx_inv)
next
  case (Cons t env)
  then show ?case
    by (cases "write_attempt N c s") (auto intro: write_attempt_tx_inv spin_tx_inv)
qed

lemma uart_end_tx_inv:
  assumes "uart_end N env s = Some s'" "written s" "tx_inv s"
  shows "tx_inv s'"
  using uart_end_drained [OF assms] uart_end_post(1) [OF assms(1)]
  by (simp add: tx_inv_def)

text \<open>
  The enable bit mirrors the buffer across every step but one. On any port of at least two
  slots with nothing queued, nothing written and the data register busy, \<^verbatim>\<open>write\<close>
  queues its byte without setting \<open>written\<close>, and an \<^verbatim>\<open>end()\<close> after it returns at
  once with the byte queued and the interrupt disabled.
\<close>

lemma end_after_buffered_write:
  assumes wf: "tx_wf N s" and N: "2 \<le> N"
    and idle: "tx_buffer_head s = tx_buffer_tail s" "\<not> written s" "\<not> dreif s"
  shows "\<exists>s1 s2. uart_write N env c s = Some (1, s1) \<and> uart_end N env' s1 = Some s2
      \<and> \<not> dreie s2 \<and> tx_buffer_head s2 \<noteq> tx_buffer_tail s2 \<and> \<not> tx_inv s2"
proof -
  let ?h = "tx_buffer_head s"
  let ?s1 = "s\<lparr>tx_buffer := (tx_buffer s)[?h := c], tx_buffer_head := (?h + 1) mod N,
      CTRLA := CTRLA s OR USART_DREIE_bm\<rparr>"
  from wf have h: "?h < N" by (simp add: tx_wf_def)
  have ne: "(?h + 1) mod N \<noteq> tx_buffer_tail s"
  proof (cases "Suc ?h = N")
    case True
    with N idle(1) show ?thesis by simp
  next
    case False
    with h have "(?h + 1) mod N = Suc ?h" by simp
    with idle(1) show ?thesis by simp
  qed
  with idle(3) have w: "uart_write N env c s = Some (1, ?s1)"
    by (simp add: uart_write_now write_attempt_buffered)
  have "\<not> written ?s1" using idle(2) by simp
  then have f: "flush N env' ?s1 = Some ?s1" by (rule flush_unwritten)
  then obtain s2 where e: "uart_end N env' ?s1 = Some s2"
    and t: "tx_buffer_head s2 = tx_buffer_head ?s1" "tx_buffer_tail s2 = tx_buffer_tail ?s1"
    by (simp add: uart_end_def)
  from uart_end_post(1) [OF e] have d: "\<not> dreie s2" .
  from t ne have n: "tx_buffer_head s2 \<noteq> tx_buffer_tail s2" by simp
  with d have "\<not> tx_inv s2" by (simp add: tx_inv_def)
  with w e d n show ?thesis by blast
qed

section \<open>The run of the four-slot port\<close>

lemmas port4_defs = port4_def port4_begun_def port4_busy_def port4_behind_def port4_ended_def
  port4_again_def port4_idle_def port4_fast_def port4_sent_def port4_rx_def














section \<open>What begin does to the buffers\<close>


lemma available_cong:
  "rx_buffer_head s' = rx_buffer_head s \<Longrightarrow> rx_buffer_tail s' = rx_buffer_tail s \<Longrightarrow>
   available M s' = available M s"
  by (simp add: available_def)

lemma run_rx: "uart_begin 4 [] 16000000 0 9600 3 port4_rx = Inr port4_rx"
  by (simp add: uart_begin_def baud_setting_def begin_setup_def mask_defs Let_def port4_defs)





text \<open>
  C7 does not hold for every enabled port: on an enabled port that has written nothing
  \<^verbatim>\<open>begin\<close> performs no \<^verbatim>\<open>end()\<close>. With one received byte unread it returns the port
  as it was, whereas \<^verbatim>\<open>end()\<close> followed by \<^verbatim>\<open>begin\<close> discards the byte.
\<close>

theorem begin_without_end_on_enabled_port:
  "port_enabled port4_rx \<and> \<not> written port4_rx
   \<and> uart_begin 4 [] 16000000 0 9600 3 port4_rx = Inr port4_rx
   \<and> uart_end 4 [] port4_rx = Some (port4_begun\<lparr>CTRLB := 0x00, CTRLA := 0x00\<rparr>)
   \<and> uart_begin 4 [] 16000000 0 9600 3 (port4_begun\<lparr>CTRLB := 0x00, CTRLA := 0x00\<rparr>) = Inr port4_begun
   \<and> rx_buffer_head port4_rx = 1 \<and> rx_buffer_head port4_begun = 0"
proof -
  have "port_enabled port4_rx" by (simp add: port_enabled_def mask_defs port4_defs)
  moreover have "uart_end 4 [] port4_rx = Some (port4_begun\<lparr>CTRLB := 0x00, CTRLA := 0x00\<rparr>)"
    by (simp add: uart_end_def flush_def mask_defs port4_defs)
  moreover have "uart_begin 4 [] 16000000 0 9600 3 (port4_begun\<lparr>CTRLB := 0x00, CTRLA := 0x00\<rparr>) = Inr port4_begun"
    by (simp add: uart_begin_def baud_setting_def begin_setup_def mask_defs Let_def port4_defs)
  ultimately show ?thesis using run_rx by (simp add: port4_defs)
qed

text \<open>
  C7, amended. If \<^verbatim>\<open>begin\<close> is called while \<open>written\<close> is true, it first performs
  \<^verbatim>\<open>end()\<close>: the flush has waited until the interrupt enable was clear and the
  transmit-complete flag up, receiver and transmitter are switched off, the unread received
  bytes are discarded; then it configures the port. If \<open>written\<close> is false it configures the
  port without \<^verbatim>\<open>end()\<close>, enabled or not. A \<^verbatim>\<open>begin\<close> with the same arguments right
  after a \<^verbatim>\<open>begin\<close> that returned changes nothing.
\<close>

theorem begin_ends_written_port:
  assumes "baud_setting F trim baud = Some bs"
  shows "(written s \<longrightarrow>
            uart_begin N env F trim baud config s =
              (case uart_end N env s of
                 None \<Rightarrow> Inl Unfinished
               | Some s1 \<Rightarrow> Inr (begin_setup bs config s1)))
         \<and> (written s \<and> uart_end N env s = Some s1 \<longrightarrow>
              (\<exists>s0. flush_loop N env s = Some s0 \<and> \<not> dreie s0 \<and> txcif s0)
              \<and> \<not> port_enabled s1 \<and> \<not> dreie s1
              \<and> rx_buffer_head s1 = rx_buffer_tail s1 \<and> \<not> written s1)
         \<and> (\<not> written s \<longrightarrow>
              uart_begin N env F trim baud config s = Inr (begin_setup bs config s))
         \<and> (uart_begin N env F trim baud config s = Inr s' \<longrightarrow>
              port_enabled s' \<and> uart_begin N env' F trim baud config s' = Inr s')"
proof (intro conjI impI)
  assume "written s"
  then show "uart_begin N env F trim baud config s =
      (case uart_end N env s of
         None \<Rightarrow> Inl Unfinished
       | Some s1 \<Rightarrow> Inr (begin_setup bs config s1))"
    using assms by (rule uart_begin_written)
next
  assume a: "written s \<and> uart_end N env s = Some s1"
  then have e: "uart_end N env s = Some s1" and w: "written s" by simp_all
  from e obtain s0 where "flush N env s = Some s0" by (auto simp add: uart_end_Some)
  with w have "flush_loop N env s = Some s0" by (simp add: flush_written)
  with flush_loop_exit [OF this]
  show "\<exists>s0. flush_loop N env s = Some s0 \<and> \<not> dreie s0 \<and> txcif s0" by blast
  from uart_end_post [OF e]
  show "\<not> port_enabled s1" "\<not> dreie s1" "rx_buffer_head s1 = rx_buffer_tail s1" "\<not> written s1"
    by simp_all
next
  assume "\<not> written s"
  then show "uart_begin N env F trim baud config s = Inr (begin_setup bs config s)"
    using assms by (rule uart_begin_unwritten)
next
  assume r: "uart_begin N env F trim baud config s = Inr s'"
  then obtain bs' s1 where bs': "baud_setting F trim baud = Some bs'"
    and s': "s' = begin_setup bs' config s1"
    and s1: "if written s then uart_end N env s = Some s1 else s1 = s"
    by (rule uart_begin_Inr)
  from bs' assms have [simp]: "bs' = bs" by simp
  show "port_enabled s'" by (simp add: s' begin_setup_enabled)
  from s1 have "\<not> written s1" by (auto split: if_splits dest: uart_end_post(2))
  then have "\<not> written s'" by (simp add: s')
  then have "uart_begin N env' F trim baud config s' = Inr (begin_setup bs config s')"
    using assms by (rule uart_begin_unwritten)
  then show "uart_begin N env' F trim baud config s' = Inr s'"
    by (simp add: s' begin_setup_idem)
qed

theorem begin_ends_written_port_witness:
  "baud_setting 16000000 0 9600 = Some 6667
   \<and> written port4_wrote \<and> rx_buffer_head port4_wrote \<noteq> rx_buffer_tail port4_wrote
   \<and> uart_end 4 [] port4_wrote = Some (port4_ended\<lparr>TXDATAL := 0x42, STATUS := 0x60,
        tx_buffer := [0, 0, 0, 0], tx_buffer_head := 0\<rparr>)
   \<and> uart_begin 4 [] 16000000 0 9600 3 port4_wrote =
        Inr (begin_setup 6667 3 (port4_ended\<lparr>TXDATAL := 0x42, STATUS := 0x60,
        tx_buffer := [0, 0, 0, 0], tx_buffer_head := 0\<rparr>))
   \<and> \<not> written port4_rx
   \<and> uart_begin 4 [] 16000000 0 9600 3 port4_rx = Inr (begin_setup 6667 3 port4_rx)
   \<and> uart_begin 4 [([], [])] 16000000 0 9600 3 port4_rx = Inr port4_rx"
proof -
  have bs: "baud_setting 16000000 0 9600 = Some 6667"
    by (simp add: baud_setting_def)
  note T = begin_ends_written_port [OF bs, where N = 4 and config = 3]
  have w: "written port4_wrote" by (simp add: port4_wrote_def)
  have r: "rx_buffer_head port4_wrote \<noteq> rx_buffer_tail port4_wrote"
    by (simp add: port4_wrote_def port4_defs)
  have e: "uart_end 4 [] port4_wrote = Some (port4_ended\<lparr>TXDATAL := 0x42, STATUS := 0x60,
        tx_buffer := [0, 0, 0, 0], tx_buffer_head := 0\<rparr>)"
    by (simp add: uart_end_def flush_def dreie_def txcif_def mask_defs
        port4_wrote_def port4_defs)
  from T [where s = port4_wrote and env = "[]"] w
  have "uart_begin 4 [] 16000000 0 9600 3 port4_wrote =
      (case uart_end 4 [] port4_wrote of
         None \<Rightarrow> Inl Unfinished
       | Some s1 \<Rightarrow> Inr (begin_setup 6667 3 s1))"
    by blast
  with e have 1: "uart_begin 4 [] 16000000 0 9600 3 port4_wrote =
        Inr (begin_setup 6667 3 (port4_ended\<lparr>TXDATAL := 0x42, STATUS := 0x60,
        tx_buffer := [0, 0, 0, 0], tx_buffer_head := 0\<rparr>))"
    by simp
  have n: "\<not> written port4_rx" by (simp add: port4_defs)
  with T [where s = port4_rx and env = "[]"]
  have 2: "uart_begin 4 [] 16000000 0 9600 3 port4_rx = Inr (begin_setup 6667 3 port4_rx)"
    by blast
  from T [where s = port4_rx and env = "[]" and s' = port4_rx and env' = "[([], [])]"] run_rx
  have 3: "uart_begin 4 [([], [])] 16000000 0 9600 3 port4_rx = Inr port4_rx"
    by blast
  from bs w r e 1 n 2 3 show ?thesis by simp
qed

section \<open>Free slots\<close>

lemma sint16_of_int: "- (2 ^ 15) \<le> k \<Longrightarrow> k < 2 ^ 15 \<Longrightarrow> sint (word_of_int k :: u16) = k"
  by (simp add: sint_sbintrunc' signed_take_bit_int_eq_self)

text \<open>
  C9. With both indices below the buffer size (which fits the 16-bit \<^verbatim>\<open>int\<close> of the
  target), \<^verbatim>\<open>availableForWrite()\<close> returns the buffer size minus one minus the number of
  queued bytes \<open>(N + head - tail) mod N\<close>; the result is not negative and no intermediate
  value leaves the range of \<^verbatim>\<open>int\<close>.
\<close>

theorem availableForWrite_free_slots:
  assumes "tx_buffer_head s < N" and "tx_buffer_tail s < N" and "N < 2 ^ 15"
  shows "availableForWrite N s = int N - 1 - int ((N + tx_buffer_head s - tx_buffer_tail s) mod N)
         \<and> availableForWrite N s + int (tx_count N s) = int N - 1
         \<and> 0 \<le> availableForWrite N s"
proof -
  let ?h = "tx_buffer_head s" and ?t = "tx_buffer_tail s"
  have c: "(N + ?h - ?t) mod N = (if ?t \<le> ?h then ?h - ?t else N + ?h - ?t)"
    using assms(1,2) by (rule ring_count)
  have a: "availableForWrite N s = (if ?t \<le> ?h then int N - 1 - int ?h + int ?t
      else int ?t - int ?h - 1)"
  proof (cases "?t \<le> ?h")
    case True
    have "(of_nat N :: u16) - 1 - of_nat ?h + of_nat ?t
        = word_of_int (int N - 1 - int ?h + int ?t)"
      by simp
    moreover have "- (2 ^ 15) \<le> int N - 1 - int ?h + int ?t"
      using assms(1) by simp
    moreover have "int N - 1 - int ?h + int ?t < 2 ^ 15"
      using True assms(3) by simp
    ultimately have "sint ((of_nat N :: u16) - 1 - of_nat ?h + of_nat ?t)
        = int N - 1 - int ?h + int ?t"
      by (simp only: sint16_of_int)
    with True show ?thesis by (simp add: availableForWrite_def Let_def)
  next
    case False
    have "(of_nat ?t :: u16) - of_nat ?h - 1 = word_of_int (int ?t - int ?h - 1)"
      by simp
    moreover have "- (2 ^ 15) \<le> int ?t - int ?h - 1"
      using False by simp
    moreover have "int ?t - int ?h - 1 < 2 ^ 15"
      using assms(2,3) by simp
    ultimately have "sint ((of_nat ?t :: u16) - of_nat ?h - 1) = int ?t - int ?h - 1"
      by (simp only: sint16_of_int)
    with False show ?thesis by (simp add: availableForWrite_def Let_def)
  qed
  have 1: "availableForWrite N s = int N - 1 - int ((N + ?h - ?t) mod N)"
    using assms(1,2) by (auto simp add: a c)
  then have 2: "availableForWrite N s + int (tx_count N s) = int N - 1"
    by (simp add: tx_count_def)
  have 3: "0 \<le> availableForWrite N s"
    using assms(1,2) by (auto simp add: a)
  from 1 2 3 show ?thesis by simp
qed

theorem availableForWrite_free_slots_witness:
  "tx_buffer_head port4_full < 4 \<and> tx_buffer_tail port4_full < 4 \<and> (4::nat) < 2 ^ 15
   \<and> tx_count 4 port4_full = 3 \<and> availableForWrite 4 port4_full = 0
   \<and> tx_count 4 port4_queued = 1 \<and> availableForWrite 4 port4_queued = 2"
proof -
  have h: "tx_buffer_head port4_full < 4" "tx_buffer_tail port4_full < 4"
    by (simp_all add: port4_full_def port4_def)
  have c: "tx_count 4 port4_full = 3"
    by (simp add: tx_count_def port4_full_def port4_def)
  have h': "tx_buffer_head port4_queued < 4" "tx_buffer_tail port4_queued < 4"
    by (simp_all add: port4_queued_def port4_def)
  have c': "tx_count 4 port4_queued = 1"
    by (simp add: tx_count_def port4_queued_def port4_def)
  have n: "(4::nat) < 2 ^ 15" by simp
  from availableForWrite_free_slots [OF h n] c
  have "availableForWrite 4 port4_full = 0" by simp
  moreover from availableForWrite_free_slots [OF h' n] c'
  have "availableForWrite 4 port4_queued = 2" by simp
  ultimately show ?thesis using h c c' by simp
qed

section \<open>The baud register\<close>

lemma round_half_up:
  "round ((8 * real F) / real b / 2) = int ((8 * F div b + 1) div 2)"
proof -
  let ?x = "(8 * real F) / real b"
  have "round (?x / 2) = \<lfloor>(?x + 1) / real_of_int 2\<rfloor>"
    by (simp add: round_def add_divide_distrib)
  also have "\<dots> = \<lfloor>?x + 1\<rfloor> div 2"
    by (rule floor_divide_real_eq_div) simp
  also have "\<lfloor>?x + 1\<rfloor> = \<lfloor>?x\<rfloor> + 1"
    by simp
  also have "?x = real_of_int (8 * int F) / real_of_int (int b)"
    by simp
  also have "\<lfloor>real_of_int (8 * int F) / real_of_int (int b)\<rfloor> = (8 * int F) div int b"
    by (rule floor_divide_of_int_eq)
  also have "(8 * int F) div int b = int (8 * F div b)"
    by (simp add: zdiv_int)
  finally show ?thesis by (simp add: zdiv_int)
qed

lemma trim_quotient_bound:
  fixes d t :: int
  assumes "0 \<le> d" "- 128 \<le> t"
  shows "- (d div 8) \<le> (d * t) sdiv 1024"
proof (cases "0 \<le> t")
  case True
  with assms(1) have "0 \<le> d * t" by simp
  then have "(d * t) sdiv 1024 = (d * t) div 1024"
    by (simp add: signed_divide_int_def sgn_if)
  moreover from \<open>0 \<le> d * t\<close> have "0 \<le> (d * t) div 1024"
    by (simp add: pos_imp_zdiv_nonneg_iff)
  moreover from assms(1) have "0 \<le> d div 8" by (simp add: pos_imp_zdiv_nonneg_iff)
  ultimately show ?thesis by simp
next
  case False
  then have t: "t < 0" by simp
  have le: "d * (- t) \<le> d * 128"
    using assms by (intro mult_left_mono) simp_all
  have nn: "0 \<le> d * (- t)" using assms(1) t by (simp add: mult_nonneg_nonpos2 mult_nonneg_nonpos)
  have "(d * t) sdiv 1024 = - ((d * (- t)) div 1024)"
  proof (cases "d = 0")
    case True
    then show ?thesis by simp
  next
    case False
    with assms(1) have "0 < d" by simp
    with t have neg: "d * t < 0" by (simp add: mult_pos_neg)
    then have "\<bar>d * t\<bar> = d * (- t)" by simp
    with neg show ?thesis by (simp add: signed_divide_int_def sgn_if)
  qed
  moreover have "(d * (- t)) div 1024 \<le> (d * 128) div 1024"
    using le by (rule zdiv_mono1) simp
  moreover have "(d * 128) div 1024 = d div 8"
    by simp
  ultimately show ?thesis by simp
qed


lemma sint8_range: "- 128 \<le> sint (t :: u8) \<and> sint t < 128"
  using sint_range_size [of t] by (simp add: word_size)

lemma scast_trim: "sint (scast (t :: u8) :: u32) = sint t"
  by (rule sint_up_scast) (simp add: is_up)

lemma ucast16: "uint (ucast (word_of_int k :: u32) :: u16) = k mod 2 ^ 16"
proof -
  have "k mod 4294967296 mod 65536 = k mod 65536"
    by (rule mod_mod_cancel) simp
  then show ?thesis
    by (simp add: unsigned_ucast_eq uint_word_of_int_eq take_bit_eq_mod)
qed

lemma sint32_of_int: "- (2 ^ 31) \<le> k \<Longrightarrow> k < 2 ^ 31 \<Longrightarrow> sint (word_of_int k :: u32) = k"
  by (simp add: sint_sbintrunc' signed_take_bit_int_eq_self)

text \<open>The rounded quotient as the code computes it, on 32-bit words.\<close>

lemma rounded_quotient:
  assumes "8 * unat F < 2 ^ 32"
  shows "unat ((((8 * F) div baud) + 1) div 2 :: u32) = (8 * unat F div unat baud + 1) div 2"
proof -
  have "unat (8 :: u32) * unat F < 2 ^ LENGTH(32)"
    using assms by simp
  then have m: "unat (8 * F) = 8 * unat F"
    by (simp add: unat_mult_lem [THEN iffD1])
  then have q: "unat ((8 * F) div baud) = 8 * unat F div unat baud"
    by (simp add: unat_div)
  have "8 * unat F div unat baud \<le> 8 * unat F"
    by (rule div_le_dividend)
  moreover have "8 * unat F + 1 < 2 ^ 32"
  proof -
    from assms have "8 * unat F < 4294967296" by simp
    then have "8 * unat F + 1 < 4294967296" by presburger
    then show ?thesis by simp
  qed
  ultimately have "8 * unat F div unat baud + 1 < 2 ^ 32"
    by linarith
  then have "unat ((8 * F) div baud) + unat (1 :: u32) < 2 ^ LENGTH(32)"
    using q by simp
  then have "unat ((8 * F) div baud + 1) = unat ((8 * F) div baud) + unat (1 :: u32)"
    by (simp only: unat_add_lem [THEN iffD1])
  with q show ?thesis by (simp add: unat_div)
qed

lemma baud_setting_exact:
  fixes F baud :: u32 and trim :: u8
  defines "d \<equiv> int ((8 * unat F div unat baud + 1) div 2)"
  assumes nz: "baud \<noteq> 0" and F: "8 * unat F < 2 ^ 32"
    and lo: "- (2 ^ 31) \<le> d * sint trim" and hi: "d * sint trim < 2 ^ 31"
  shows "\<exists>bs. baud_setting F trim baud = Some bs
      \<and> uint (ucast bs :: u16) = (d + (d * sint trim) sdiv 1024) mod 2 ^ 16"
proof -
  let ?b0 = "(((8 * F) div baud) + 1) div 2 :: u32"
  have u: "unat ?b0 = (8 * unat F div unat baud + 1) div 2"
    using F by (rule rounded_quotient)
  have "(8 * unat F div unat baud + 1) div 2 \<le> (8 * unat F + 1) div 2"
    by (intro div_le_mono add_le_mono div_le_dividend) simp
  also have "\<dots> < 2 ^ 31"
  proof -
    from F have "8 * unat F < 4294967296" by simp
    then have "(8 * unat F + 1) div 2 < 2147483648" by presburger
    then show ?thesis by simp
  qed
  finally have d31: "d < 2 ^ 31" by (simp add: d_def)
  have d0: "0 \<le> d" by (simp add: d_def)
  have b0: "?b0 = word_of_int d"
    unfolding d_def u [symmetric] by simp
  have s0: "sint ?b0 = d"
    unfolding b0 using d0 d31 by (intro sint32_of_int) simp_all
  have "sint (?b0 * scast trim) = signed_take_bit 31 (sint ?b0 * sint (scast trim :: u32))"
    by (simp add: sint_word_mult)
  also have "\<dots> = d * sint trim"
    using lo hi by (simp add: s0 scast_trim signed_take_bit_int_eq_self)
  finally have p: "sint (?b0 * scast trim) = d * sint trim" .
  have "baud_setting F trim baud
      = Some (word_of_int d + word_of_int ((d * sint trim) sdiv 1024))"
    using nz by (simp add: baud_setting_def Let_def p b0 [symmetric])
  moreover have "uint (ucast (word_of_int d + word_of_int ((d * sint trim) sdiv 1024) :: u32) :: u16)
      = (d + (d * sint trim) sdiv 1024) mod 2 ^ 16"
    using ucast16 [of "d + (d * sint trim) sdiv 1024"] by simp
  ultimately show ?thesis by blast
qed


lemma spec_divisor_int:
  "spec_divisor f b t =
     int ((8 * f div b + 1) div 2) + (int ((8 * f div b + 1) div 2) * t) sdiv 1024"
  by (simp only: spec_divisor_def round_half_up Let_def)

lemma uart_begin_BAUD:
  assumes "uart_begin N env F trim baud config s = Inr s'"
  shows "\<exists>bs. baud_setting F trim baud = Some bs \<and> BAUD s' = ucast bs"
proof -
  from assms obtain bs s1 where "baud_setting F trim baud = Some bs"
    "s' = begin_setup bs config s1"
    by (rule uart_begin_Inr)
  then show ?thesis by simp
qed

text \<open>
  C8 does not hold for every baud rate: at 16 MHz and 300 baud with a zero trim the divisor
  is 213333, which the 16-bit register cannot hold; \<^verbatim>\<open>begin\<close> programs 16725.
\<close>

theorem baud_register_keeps_low_bits:
  "spec_divisor 16000000 300 0 = 213333
   \<and> uart_begin 4 [] 16000000 0 300 3 port4 = Inr (port4_begun\<lparr>BAUD := 16725\<rparr>)
   \<and> uint (BAUD (port4_begun\<lparr>BAUD := 16725\<rparr>)) = 16725"
proof -
  have "spec_divisor 16000000 300 0 = 213333"
    by (simp add: spec_divisor_int)
  moreover have "uart_begin 4 [] 16000000 0 300 3 port4 = Inr (port4_begun\<lparr>BAUD := 16725\<rparr>)"
    by (simp add: uart_begin_def baud_setting_def begin_setup_def mask_defs Let_def port4_defs)
  ultimately show ?thesis by simp
qed

text \<open>
  C8, amended. For a clock frequency with \<open>8 * F_CPU\<close> below \<open>2^31\<close> (the product is a
  \<^verbatim>\<open>long\<close>) and a baud rate other than 0, let the divisor be \<open>round((8 * F_CPU) / baud / 2)\<close>, which is
  \<open>((8 * F_CPU) div baud + 1) div 2\<close>, and let the corrected divisor be the divisor plus
  \<open>divisor * trim / 1024\<close>, the quotient truncated towards zero and \<open>trim\<close> read as a signed
  byte. Whenever the corrected divisor fits the 16-bit baud register, \<^verbatim>\<open>begin\<close> programs
  the register with it; in general, for a divisor below \<open>2^24\<close>, the register receives its
  low 16 bits.
\<close>

theorem begin_programs_baud:
  assumes "baud \<noteq> 0" and "8 * unat F < 2 ^ 31"
    and "uart_begin N env F trim baud config s = Inr s'"
  shows "round ((8 * real (unat F)) / real (unat baud) / 2)
           = int ((8 * unat F div unat baud + 1) div 2)
         \<and> (0 \<le> spec_divisor (unat F) (unat baud) (sint trim)
              \<and> spec_divisor (unat F) (unat baud) (sint trim) < 2 ^ 16 \<longrightarrow>
            uint (BAUD s') = spec_divisor (unat F) (unat baud) (sint trim))
         \<and> (round ((8 * real (unat F)) / real (unat baud) / 2) < 2 ^ 24 \<longrightarrow>
            uint (BAUD s') = spec_divisor (unat F) (unat baud) (sint trim) mod 2 ^ 16)"
proof -
  let ?d = "int ((8 * unat F div unat baud + 1) div 2)"
  let ?t = "sint trim"
  let ?D = "spec_divisor (unat F) (unat baud) ?t"
  have r: "round ((8 * real (unat F)) / real (unat baud) / 2) = ?d"
    by (rule round_half_up)
  have D: "?D = ?d + (?d * ?t) sdiv 1024"
    by (rule spec_divisor_int)
  have d0: "0 \<le> ?d" by simp
  have t: "- 128 \<le> ?t" "?t < 128"
    using sint8_range [of trim] by simp_all
  from assms(3) obtain bs where bs: "baud_setting F trim baud = Some bs" "BAUD s' = ucast bs"
    using uart_begin_BAUD by blast
  have low: "uint (BAUD s') = ?D mod 2 ^ 16" if small: "?d < 2 ^ 24"
  proof -
    have "?d * (- 128) \<le> ?d * ?t"
      using d0 t(1) by (intro mult_left_mono) simp_all
    with small have lo: "- (2 ^ 31) \<le> ?d * ?t" by simp
    have "?d * ?t \<le> ?d * 128"
      using d0 t(2) by (intro mult_left_mono) simp_all
    with small have hi: "?d * ?t < 2 ^ 31" by simp
    from assms(2) have "8 * unat F < 2 ^ 32" by simp
    from baud_setting_exact [OF assms(1) this lo hi] bs show ?thesis
      by (simp add: D)
  qed
  have fit: "uint (BAUD s') = ?D" if range: "0 \<le> ?D \<and> ?D < 2 ^ 16"
  proof -
    from trim_quotient_bound [OF d0 t(1)] have "?d - ?d div 8 \<le> ?D"
      by (simp add: D)
    with range have "?d - ?d div 8 < 65536" by simp
    moreover have "x < 16777216" if "x - x div 8 < 65536" for x :: int
      using that by presburger
    ultimately have "?d < 16777216" by blast
    then have "?d < 2 ^ 24" by simp
    then have "uint (BAUD s') = ?D mod 2 ^ 16" by (rule low)
    with range show ?thesis by simp
  qed
  from r low fit show ?thesis by simp
qed

theorem begin_programs_baud_witness:
  "(9600 :: u32) \<noteq> 0 \<and> 8 * unat (16000000 :: u32) < 2 ^ 31
   \<and> uart_begin 4 [] 16000000 0xFD 9600 3 port4 = Inr (port4_begun\<lparr>BAUD := 6648\<rparr>)
   \<and> sint (0xFD :: u8) = - 3
   \<and> round ((8 * real (16000000 :: nat)) / real (9600 :: nat) / 2) = 6667
   \<and> spec_divisor 16000000 9600 (- 3) = 6648
   \<and> uint (BAUD (port4_begun\<lparr>BAUD := 6648\<rparr>)) = 6648"
proof -
  have nz: "(9600 :: u32) \<noteq> 0" by simp
  have F: "8 * unat (16000000 :: u32) < 2 ^ 31" by simp
  have b: "uart_begin 4 [] 16000000 0xFD 9600 3 port4 = Inr (port4_begun\<lparr>BAUD := 6648\<rparr>)"
    by (simp add: uart_begin_def baud_setting_def begin_setup_def mask_defs Let_def port4_defs)
  have t: "sint (0xFD :: u8) = - 3" by simp
  have D: "spec_divisor 16000000 9600 (- 3) = 6648"
    by (simp add: spec_divisor_int)
  note T = begin_programs_baud [OF nz F b]
  from T have "round ((8 * real (16000000 :: nat)) / real (9600 :: nat) / 2) = 6667"
    by simp
  moreover from T D t have "uint (BAUD (port4_begun\<lparr>BAUD := 6648\<rparr>)) = 6648"
    by simp
  ultimately show ?thesis using nz F b t D by simp
qed

end
